theory Spec2Isabelle
  imports Complex_Main "HOL-Library.Sublist"
begin

section \<open>Strings\<close>

text \<open>
  A JavaScript string is modelled as a \<^typ>\<open>string\<close>: a list of 8-bit characters, read as
  the code units \<open>0x00 .. 0xFF\<close>. The string methods the scripts call
  (\<^verbatim>\<open>trim\<close>, \<^verbatim>\<open>toLowerCase\<close>, \<^verbatim>\<open>includes\<close>, \<^verbatim>\<open>split\<close>, \<^verbatim>\<open>join\<close>, \<^verbatim>\<open>startsWith\<close>,
  \<^verbatim>\<open>endsWith\<close>) are defined on that range; \<^verbatim>\<open>substring(0, n)\<close> is \<open>take n\<close> and
  \<^verbatim>\<open>substring(n)\<close> is \<open>drop n\<close>.
\<close>

definition newline :: char where
  "newline = CHR 0x0A"

definition blank_line :: string where
  \<comment> \<open>the literal \<^verbatim>\<open>'\n\n'\<close>\<close>
  "blank_line = [newline, newline]"

definition is_space :: "char \<Rightarrow> bool" where
  \<comment> \<open>white space and line terminators removed by \<^verbatim>\<open>String.prototype.trim\<close>:
      TAB, LF, VT, FF, CR, SP, NBSP\<close>
  "is_space c \<longleftrightarrow> c \<in> set [CHR 0x09, CHR 0x0A, CHR 0x0B, CHR 0x0C, CHR 0x0D, CHR 0x20, CHR 0xA0]"

definition trim :: "string \<Rightarrow> string" where
  "trim s = rev (dropWhile is_space (rev (dropWhile is_space s)))"

definition lower_char :: "char \<Rightarrow> char" where
  \<comment> \<open>\<^verbatim>\<open>A-Z\<close> and the Latin-1 capitals \<open>0xC0 .. 0xDE\<close> (but the multiplication sign
      \<open>0xD7\<close>) have their lower-case letter 32 places further\<close>
  "lower_char c =
     (let n = (of_char c :: nat)
      in if (65 \<le> n \<and> n \<le> 90) \<or> (192 \<le> n \<and> n \<le> 222 \<and> n \<noteq> 215)
         then char_of (n + 32) else c)"

definition toLowerCase :: "string \<Rightarrow> string" where
  "toLowerCase s = map lower_char s"

definition string_includes :: "string \<Rightarrow> string \<Rightarrow> bool" where
  \<comment> \<open>\<^verbatim>\<open>s.includes(k)\<close>\<close>
  "string_includes s k \<longleftrightarrow> sublist k s"

definition startsWith :: "string \<Rightarrow> string \<Rightarrow> bool" where
  "startsWith s k \<longleftrightarrow> prefix k s"

definition endsWith :: "string \<Rightarrow> string \<Rightarrow> bool" where
  "endsWith s k \<longleftrightarrow> suffix k s"

fun split :: "string \<Rightarrow> string \<Rightarrow> string list" where
  \<comment> \<open>\<^verbatim>\<open>s.split(sep)\<close> for a non-empty separator: the pieces between the occurrences of
      \<open>sep\<close>, found from left to right without overlap\<close>
  "split sep [] = [[]]"
| "split sep (c # cs) =
     (if sep \<noteq> [] \<and> prefix sep (c # cs)
      then [] # split sep (drop (length sep) (c # cs))
      else (case split sep cs of
              [] \<Rightarrow> [[c]]
            | piece # pieces \<Rightarrow> (c # piece) # pieces))"

fun join :: "string \<Rightarrow> string list \<Rightarrow> string" where
  \<comment> \<open>\<^verbatim>\<open>pieces.join(sep)\<close>\<close>
  "join sep [] = []"
| "join sep [p] = p"
| "join sep (p # q # ps) = p @ sep @ join sep (q # ps)"

section \<open>JavaScript values\<close>

text \<open>
  The scripts handle the results of \<^verbatim>\<open>JSON.parse\<close> untyped (\<^verbatim>\<open>any\<close>), so the
  model has the values of JavaScript that JSON can denote, and \<^verbatim>\<open>undefined\<close> for a
  property that is not there. An object is the list of its own properties in order
  (\<open>map_of\<close> reads the first entry of a name). A number is a finite value or one of the
  infinities, which \<^verbatim>\<open>JSON.parse\<close> returns for a literal beyond the double range; the
  program never tells \<open>-0\<close> from \<open>0\<close>.
\<close>

datatype number = Finite rat | PosInfinity | NegInfinity

datatype jsval =
    JUndefined
  | JNull
  | JBool bool
  | JNum number
  | JStr string
  | JArr "jsval list"
  | JObj "(string \<times> jsval) list"

datatype js_error = TypeError | SyntaxError | Error string | Rejected

fun truthy :: "jsval \<Rightarrow> bool" where
  "truthy JUndefined = False"
| "truthy JNull = False"
| "truthy (JBool b) = b"
| "truthy (JNum n) = (n \<noteq> Finite 0)"
| "truthy (JStr s) = (s \<noteq> [])"
| "truthy (JArr xs) = True"
| "truthy (JObj kvs) = True"

fun decimal :: "nat \<Rightarrow> string" where
  \<comment> \<open>the property name of an array index\<close>
  "decimal n =
     (if n < 10 then [char_of (48 + n)]
      else decimal (n div 10) @ [char_of (48 + n mod 10)])"

declare decimal.simps [simp del]

fun get :: "jsval \<Rightarrow> string \<Rightarrow> js_error + jsval" where
  \<comment> \<open>\<^verbatim>\<open>v.name\<close> for the names the scripts read (none is an array index, and
      \<^verbatim>\<open>length\<close> is the one built-in member among them): reading a property of
      \<^verbatim>\<open>null\<close> or \<^verbatim>\<open>undefined\<close> throws a TypeError, a property that is not there is
      \<^verbatim>\<open>undefined\<close>\<close>
  "get JUndefined name = Inl TypeError"
| "get JNull name = Inl TypeError"
| "get (JObj kvs) name = Inr (case map_of kvs name of None \<Rightarrow> JUndefined | Some v \<Rightarrow> v)"
| "get (JArr xs) name =
     Inr (if name = ''length'' then JNum (Finite (of_nat (length xs))) else JUndefined)"
| "get (JStr s) name =
     Inr (if name = ''length'' then JNum (Finite (of_nat (length s))) else JUndefined)"
| "get (JBool b) name = Inr JUndefined"
| "get (JNum n) name = Inr JUndefined"

fun index :: "jsval \<Rightarrow> nat \<Rightarrow> js_error + jsval" where
  \<comment> \<open>\<^verbatim>\<open>v[i]\<close>\<close>
  "index JUndefined i = Inl TypeError"
| "index JNull i = Inl TypeError"
| "index (JArr xs) i = Inr (if i < length xs then xs ! i else JUndefined)"
| "index (JStr s) i = Inr (if i < length s then JStr [s ! i] else JUndefined)"
| "index (JObj kvs) i =
     Inr (case map_of kvs (decimal i) of None \<Rightarrow> JUndefined | Some v \<Rightarrow> v)"
| "index (JBool b) i = Inr JUndefined"
| "index (JNum n) i = Inr JUndefined"

fun iterate :: "jsval \<Rightarrow> js_error + jsval list" where
  \<comment> \<open>the elements \<^verbatim>\<open>for (const x of v)\<close> runs through: those of an array, the
      characters of a string; any other value is not iterable\<close>
  "iterate (JArr xs) = Inr xs"
| "iterate (JStr s) = Inr (map (\<lambda>c. JStr [c]) s)"
| "iterate v = Inl TypeError"

text \<open>
  Two conversions of the language are left open, as parameters of the model: the decimal
  text of a number (\<^verbatim>\<open>Number.prototype.toString\<close>) and the comparison of a loop index
  with the number a string denotes (\<^verbatim>\<open>i < Number(s)\<close>). Every result below holds for all
  values of both.
\<close>

record coercions =
  number_string :: "number \<Rightarrow> string"
  string_exceeds :: "string \<Rightarrow> nat \<Rightarrow> bool"

fun all_strings :: "(js_error + string) list \<Rightarrow> js_error + string list" where
  \<comment> \<open>conversions made one after the other: the first that throws ends them\<close>
  "all_strings [] = Inr []"
| "all_strings (Inl e # rs) = Inl e"
| "all_strings (Inr s # rs) = (case all_strings rs of Inl e \<Rightarrow> Inl e | Inr ss \<Rightarrow> Inr (s # ss))"

fun to_string :: "coercions \<Rightarrow> jsval \<Rightarrow> js_error + string" where
  \<comment> \<open>the string a value contributes to a concatenation \<^verbatim>\<open>s + v\<close>. An array is its
      elements joined by commas (nothing for \<^verbatim>\<open>null\<close>); an object is
      \<^verbatim>\<open>[object Object]\<close>, unless it has a property \<^verbatim>\<open>toString\<close> of its own: that is
      not a function, and the conversion throws a TypeError\<close>
  "to_string cv JUndefined = Inr ''undefined''"
| "to_string cv JNull = Inr ''null''"
| "to_string cv (JBool b) = Inr (if b then ''true'' else ''false'')"
| "to_string cv (JNum n) = Inr (number_string cv n)"
| "to_string cv (JStr s) = Inr s"
| "to_string cv (JArr xs) =
     (case all_strings
             (map (\<lambda>x. if x = JUndefined \<or> x = JNull then Inr [] else to_string cv x) xs) of
        Inl e \<Rightarrow> Inl e
      | Inr ss \<Rightarrow> Inr (join '','' ss))"
| "to_string cv (JObj kvs) =
     (if map_of kvs ''toString'' = None then Inr ''[object Object]'' else Inl TypeError)"

fun index_below :: "coercions \<Rightarrow> nat \<Rightarrow> jsval \<Rightarrow> js_error + bool" where
  \<comment> \<open>\<^verbatim>\<open>i < v\<close> for a loop index \<open>i\<close>: \<open>v\<close> is converted to a number, an array or an
      object through its string\<close>
  "index_below cv i (JNum (Finite q)) = Inr (of_nat i < q)"
| "index_below cv i (JNum PosInfinity) = Inr True"
| "index_below cv i (JNum NegInfinity) = Inr False"
| "index_below cv i JUndefined = Inr False"
| "index_below cv i JNull = Inr False"
| "index_below cv i (JBool b) = Inr (b \<and> i = 0)"
| "index_below cv i (JStr s) = Inr (string_exceeds cv s i)"
| "index_below cv i (JArr xs) =
     (case to_string cv (JArr xs) of Inl e \<Rightarrow> Inl e | Inr s \<Rightarrow> Inr (string_exceeds cv s i))"
| "index_below cv i (JObj kvs) =
     (case to_string cv (JObj kvs) of Inl e \<Rightarrow> Inl e | Inr s \<Rightarrow> Inr (string_exceeds cv s i))"

section \<open>Reassembling the text of an OCR shard\<close>

text \<open>
  \<^verbatim>\<open>extractTextFromOcrJson\<close> appends to one variable, \<^verbatim>\<open>extractedText\<close>, inside a
  \<^verbatim>\<open>try\<close> block whose handler only logs; the function then returns the trimmed
  variable. A statement of the block is modelled as a function from the text so far to a
  \<open>flow\<close>: the text when the statement has run, or the text at the moment it threw.
\<close>

datatype flow = Done string | Threw string

fun text_of :: "flow \<Rightarrow> string" where
  "text_of (Done t) = t"
| "text_of (Threw t) = t"

fun threw :: "flow \<Rightarrow> bool" where
  "threw (Done t) = False"
| "threw (Threw t) = True"

definition and_then :: "flow \<Rightarrow> (string \<Rightarrow> flow) \<Rightarrow> flow" where
  \<comment> \<open>sequencing: what follows a statement that threw does not run\<close>
  "and_then f k = (case f of Threw t \<Rightarrow> Threw t | Done t \<Rightarrow> k t)"

definition reading :: "js_error + 'a \<Rightarrow> string \<Rightarrow> ('a \<Rightarrow> flow) \<Rightarrow> flow" where
  \<comment> \<open>an expression that may throw, and the statement that uses its value\<close>
  "reading r t k = (case r of Inl e \<Rightarrow> Threw t | Inr v \<Rightarrow> k v)"

fun for_of :: "(jsval \<Rightarrow> string \<Rightarrow> flow) \<Rightarrow> jsval list \<Rightarrow> string \<Rightarrow> flow" where
  "for_of body [] t = Done t"
| "for_of body (x # xs) t = and_then (body x t) (\<lambda>t'. for_of body xs t')"

definition for_of_value :: "(jsval \<Rightarrow> string \<Rightarrow> flow) \<Rightarrow> jsval \<Rightarrow> string \<Rightarrow> flow" where
  \<comment> \<open>\<^verbatim>\<open>for (const x of v) body\<close>\<close>
  "for_of_value body v t = reading (iterate v) t (\<lambda>xs. for_of body xs t)"

definition response_text :: "coercions \<Rightarrow> jsval \<Rightarrow> string \<Rightarrow> flow" where
  \<comment> \<open>body of \<^verbatim>\<open>for (const response of jsonContent.responses)\<close>\<close>
  "response_text cv response extractedText =
     reading (get response ''fullTextAnnotation'') extractedText (\<lambda>annotation.
       if \<not> truthy annotation then Done extractedText
       else reading (get annotation ''text'') extractedText (\<lambda>text.
         if truthy text
         then reading (to_string cv text) extractedText (\<lambda>s.
                Done (extractedText @ s @ blank_line))
         else Done extractedText))"

definition direct_path :: "coercions \<Rightarrow> jsval \<Rightarrow> string \<Rightarrow> flow" where
  \<comment> \<open>the first \<^verbatim>\<open>if\<close>: only an array passes \<^verbatim>\<open>Array.isArray\<close>, and an array is truthy\<close>
  "direct_path cv jsonContent extractedText =
     reading (get jsonContent ''responses'') extractedText (\<lambda>responses.
       case responses of
         JArr rs \<Rightarrow> for_of (response_text cv) rs extractedText
       | _ \<Rightarrow> Done extractedText)"

definition symbol_text :: "coercions \<Rightarrow> jsval \<Rightarrow> string \<Rightarrow> flow" where
  \<comment> \<open>\<^verbatim>\<open>extractedText += symbol.text || ''\<close>\<close>
  "symbol_text cv symbol extractedText =
     reading (get symbol ''text'') extractedText (\<lambda>text.
       if truthy text
       then reading (to_string cv text) extractedText (\<lambda>s. Done (extractedText @ s))
       else Done extractedText)"

definition word_text :: "coercions \<Rightarrow> jsval \<Rightarrow> string \<Rightarrow> flow" where
  "word_text cv word extractedText =
     reading (get word ''symbols'') extractedText (\<lambda>symbols.
       if truthy symbols
       then and_then (for_of_value (symbol_text cv) symbols extractedText)
              (\<lambda>t. Done (t @ '' ''))
       else Done extractedText)"

definition paragraph_text :: "coercions \<Rightarrow> jsval \<Rightarrow> string \<Rightarrow> flow" where
  "paragraph_text cv paragraph extractedText =
     reading (get paragraph ''words'') extractedText (\<lambda>words.
       and_then
         (if truthy words then for_of_value (word_text cv) words extractedText
          else Done extractedText)
         (\<lambda>t. Done (t @ [newline])))"

definition block_text :: "coercions \<Rightarrow> jsval \<Rightarrow> string \<Rightarrow> flow" where
  "block_text cv block extractedText =
     reading (get block ''paragraphs'') extractedText (\<lambda>paragraphs.
       if truthy paragraphs then for_of_value (paragraph_text cv) paragraphs extractedText
       else Done extractedText)"

definition page_text :: "coercions \<Rightarrow> jsval \<Rightarrow> string \<Rightarrow> flow" where
  "page_text cv page extractedText =
     reading (get page ''blocks'') extractedText (\<lambda>blocks.
       if truthy blocks
       then and_then (for_of_value (block_text cv) blocks extractedText)
              (\<lambda>t. Done (t @ blank_line))
       else Done extractedText)"

fun pages_loop :: "coercions \<Rightarrow> jsval \<Rightarrow> nat list \<Rightarrow> string \<Rightarrow> flow" where
  \<comment> \<open>\<^verbatim>\<open>for (let pageIndex = 0; pageIndex < pages.length; pageIndex++)\<close>, over the
      indices the loop can reach\<close>
  "pages_loop cv pages [] extractedText = Done extractedText"
| "pages_loop cv pages (pageIndex # later) extractedText =
     reading (get pages ''length'') extractedText (\<lambda>len.
     reading (index_below cv pageIndex len) extractedText (\<lambda>below.
       if below
       then reading (index pages pageIndex) extractedText (\<lambda>page.
              and_then (page_text cv page extractedText)
                (\<lambda>t. pages_loop cv pages later t))
       else Done extractedText))"

fun index_bound :: "jsval \<Rightarrow> nat" where
  \<comment> \<open>a bound on the indices the loop over \<open>pages\<close> reaches. An array or a string stops
      it at its length. An object that has a \<^verbatim>\<open>length\<close> is read at the property names
      \<open>0, 1, ...\<close>, and the first one it lacks gives \<^verbatim>\<open>undefined\<close>, whose
      \<^verbatim>\<open>blocks\<close> throws: that is one of the first \<open>length kvs + 1\<close> indices.\<close>
  "index_bound (JArr xs) = length xs"
| "index_bound (JStr s) = length s"
| "index_bound (JObj kvs) = Suc (length kvs)"
| "index_bound v = 0"

definition detailed_structure :: "coercions \<Rightarrow> jsval \<Rightarrow> string \<Rightarrow> flow" where
  \<comment> \<open>the second \<^verbatim>\<open>if\<close>: the page / block / paragraph walk over the first response\<close>
  "detailed_structure cv jsonContent extractedText =
     (if extractedText \<noteq> [] then Done extractedText else
      reading (get jsonContent ''responses'') extractedText (\<lambda>responses.
      if \<not> truthy responses then Done extractedText else
      reading (index responses 0) extractedText (\<lambda>first.
      if \<not> truthy first then Done extractedText else
      reading (get first ''fullTextAnnotation'') extractedText (\<lambda>annotation.
      if \<not> truthy annotation then Done extractedText else
      reading (get annotation ''pages'') extractedText (\<lambda>pages.
      if \<not> truthy pages then Done extractedText else
      pages_loop cv pages [0 ..< index_bound pages] extractedText)))))"

definition ocr_flow :: "coercions \<Rightarrow> jsval \<Rightarrow> flow" where
  \<comment> \<open>the \<^verbatim>\<open>try\<close> block, started with \<^verbatim>\<open>extractedText = ''\<close>\<close>
  "ocr_flow cv jsonContent =
     and_then (direct_path cv jsonContent []) (\<lambda>t. detailed_structure cv jsonContent t)"

definition extractTextFromOcrJson :: "coercions \<Rightarrow> jsval \<Rightarrow> string" where
  "extractTextFromOcrJson cv jsonContent = trim (text_of (ocr_flow cv jsonContent))"


section \<open>Keyword-based clause extraction\<close>

text \<open>
  \<^verbatim>\<open>extractClausesWithKeywords\<close> of \<^verbatim>\<open>extract_knowledge.ts\<close>. The two
  \<^verbatim>\<open>let\<close> variables of the source are the pair threaded through the loop over the
  paragraphs.
\<close>

record 'a clauses =
  indemnificationText :: 'a
  terminationText :: 'a

definition no_indemnification :: string where
  "no_indemnification = ''No indemnification clause found.''"

definition no_termination :: string where
  "no_termination = ''No termination for convenience clause found.''"

definition is_indemnification :: "string \<Rightarrow> bool" where
  \<comment> \<open>the first condition of the loop body\<close>
  "is_indemnification paragraph \<longleftrightarrow>
     (let lowerParagraph = toLowerCase paragraph
      in string_includes lowerParagraph ''indemnif'' \<or>
         string_includes lowerParagraph ''liability'' \<or>
         string_includes lowerParagraph ''data breach'' \<or>
         string_includes lowerParagraph ''security breach'')"

definition is_termination :: "string \<Rightarrow> bool" where
  \<comment> \<open>the second condition of the loop body\<close>
  "is_termination paragraph \<longleftrightarrow>
     (let lowerParagraph = toLowerCase paragraph
      in string_includes lowerParagraph ''terminat'' \<and>
         (string_includes lowerParagraph ''convenience'' \<or> string_includes lowerParagraph ''at will''))"

definition keyword_step :: "string clauses \<Rightarrow> string \<Rightarrow> string clauses" where
  \<comment> \<open>one iteration of \<^verbatim>\<open>for (const paragraph of paragraphs)\<close>\<close>
  "keyword_step buffers paragraph =
     \<lparr> indemnificationText =
         (if is_indemnification paragraph
          then indemnificationText buffers @ paragraph @ blank_line
          else indemnificationText buffers),
       terminationText =
         (if is_termination paragraph
          then terminationText buffers @ paragraph @ blank_line
          else terminationText buffers) \<rparr>"

definition keyword_buffers :: "string \<Rightarrow> string clauses" where
  \<comment> \<open>the two buffers when the loop ends\<close>
  "keyword_buffers text =
     foldl keyword_step \<lparr> indemnificationText = [], terminationText = [] \<rparr> (split blank_line text)"

definition or_default :: "string \<Rightarrow> string \<Rightarrow> string" where
  \<comment> \<open>\<^verbatim>\<open>s || d\<close> on strings: the empty string is falsy\<close>
  "or_default s d = (if s \<noteq> [] then s else d)"

definition extractClausesWithKeywords :: "string \<Rightarrow> string clauses" where
  "extractClausesWithKeywords text =
     (let buffers = keyword_buffers text
      in \<lparr> indemnificationText = or_default (trim (indemnificationText buffers)) no_indemnification,
           terminationText = or_default (trim (terminationText buffers)) no_termination \<rparr>)"

section \<open>Effects: the requests sent and the lines logged\<close>

text \<open>
  Both scripts act on the outside world through \<^verbatim>\<open>axios.put\<close> and the error stream.
  The \<open>world\<close> records, oldest first, every PUT request issued to the contract API and
  every \<^verbatim>\<open>console.error\<close> / \<^verbatim>\<open>console.warn\<close> line (by the call site that printed
  it). An \<open>action\<close> is a piece of code run in a world: it returns a value or throws, and
  leaves a world.
\<close>

record request =
  url :: string
  payload :: jsval

datatype event =
    StatusUpdateFailed                \<comment> \<open>\<^verbatim>\<open>Failed to update contract status: ...\<close>\<close>
  | OcrJsonError                      \<comment> \<open>\<^verbatim>\<open>Error extracting text from OCR JSON:\<close>\<close>
  | ShardParseError string            \<comment> \<open>\<^verbatim>\<open>Error parsing JSON from <file>:\<close>\<close>
  | NoTextInShard string              \<comment> \<open>\<^verbatim>\<open>No text content could be extracted from <file>\<close>\<close>
  | AiResponseUnparsed                \<comment> \<open>\<^verbatim>\<open>Failed to parse AI response as JSON, using fallback extraction\<close>\<close>
  | AiExtractionError                 \<comment> \<open>\<^verbatim>\<open>Error using AI to extract clauses:\<close>\<close>
  | KnowledgeExtractionError          \<comment> \<open>\<^verbatim>\<open>Error during knowledge extraction:\<close>\<close>
  | KnowledgeExtractionFailed         \<comment> \<open>\<^verbatim>\<open>Knowledge extraction failed with code <code>\<close>\<close>
  | ProcessingError                   \<comment> \<open>\<^verbatim>\<open>Error during processing:\<close>\<close>
  | Usage                             \<comment> \<open>\<^verbatim>\<open>Usage: ts-node process_document.ts <id> <gcsUri>\<close>\<close>

record world =
  requests :: "request list"
  errors :: "event list"

type_synonym 'a action = "world \<Rightarrow> (js_error + 'a) \<times> world"

definition result :: "'a \<Rightarrow> 'a action" where
  "result v w = (Inr v, w)"

definition throw :: "js_error \<Rightarrow> 'a action" where
  "throw e w = (Inl e, w)"

definition evaluate :: "js_error + 'a \<Rightarrow> 'a action" where
  \<comment> \<open>an expression without effect on the world\<close>
  "evaluate r w = (r, w)"

definition then_do :: "'a action \<Rightarrow> ('a \<Rightarrow> 'b action) \<Rightarrow> 'b action" where
  \<comment> \<open>sequencing: an exception skips what follows\<close>
  "then_do m k w = (case m w of (Inl e, w') \<Rightarrow> (Inl e, w') | (Inr v, w') \<Rightarrow> k v w')"

definition try_catch :: "'a action \<Rightarrow> (js_error \<Rightarrow> 'a action) \<Rightarrow> 'a action" where
  \<comment> \<open>\<^verbatim>\<open>try { m } catch (e) { handler }\<close>\<close>
  "try_catch m handler w =
     (case m w of (Inl e, w') \<Rightarrow> handler e w' | (Inr v, w') \<Rightarrow> (Inr v, w'))"

definition console_error :: "event \<Rightarrow> unit action" where
  "console_error ev w = (Inr (), w\<lparr>errors := errors w @ [ev]\<rparr>)"

text \<open>
  What the scripts call and do not define: the environment variables, \<^verbatim>\<open>JSON.parse\<close>,
  the HTTP client, the Vision client, the storage client, the file system and the chat
  completion. Each is a field of the environment; a call that rejects or throws returns
  \<open>Inl\<close>. The outcome of a PUT may depend on how many requests went before it.
\<close>

record storage_file =
  file_name :: string
  file_download :: "js_error + string"   \<comment> \<open>\<^verbatim>\<open>(await file.download())[0].toString()\<close>\<close>

record environment =
  coerce :: coercions
  JSON_parse :: "string \<Rightarrow> js_error + jsval"
  API_BASE_URL :: "string option"
  GCS_BUCKET_NAME :: "string option"
  axios_put :: "nat \<Rightarrow> string \<Rightarrow> jsval \<Rightarrow> js_error + nat"
  annotate_files :: "string \<Rightarrow> string \<Rightarrow> js_error + unit"
  getFiles :: "string \<Rightarrow> string \<Rightarrow> js_error + storage_file list"
  prepare_directory :: "js_error + unit"
  writeFileSync :: "string \<Rightarrow> jsval \<Rightarrow> js_error + unit"
  chat_completion :: "string \<Rightarrow> js_error + jsval"

definition env_or :: "string option \<Rightarrow> string \<Rightarrow> string" where
  \<comment> \<open>\<^verbatim>\<open>process.env.X || d\<close>\<close>
  "env_or v d = (case v of None \<Rightarrow> d | Some s \<Rightarrow> if s \<noteq> [] then s else d)"

definition contract_url :: "environment \<Rightarrow> string \<Rightarrow> string" where
  "contract_url env contractId =
     env_or (API_BASE_URL env) ''http://localhost:3000'' @ ''/api/contracts/'' @ contractId"

definition put_request :: "environment \<Rightarrow> string \<Rightarrow> jsval \<Rightarrow> nat action" where
  \<comment> \<open>\<^verbatim>\<open>await axios.put(url, payload)\<close>: the request is issued, then resolves or rejects\<close>
  "put_request env u p w =
     (axios_put env (length (requests w)) u p,
      w\<lparr>requests := requests w @ [\<lparr>url = u, payload = p\<rparr>]\<rparr>)"

section \<open>Status updates\<close>

definition updateContractStatus_process :: "environment \<Rightarrow> string \<Rightarrow> string \<Rightarrow> unit action" where
  \<comment> \<open>\<^verbatim>\<open>updateContractStatus(contractId, status)\<close> of \<^verbatim>\<open>process_document.ts\<close>\<close>
  "updateContractStatus_process env contractId status =
     try_catch
       (then_do (put_request env (contract_url env contractId) (JObj [(''status'', JStr status)]))
          (\<lambda>response. result ()))
       (\<lambda>error. console_error StatusUpdateFailed)"

definition status_payload :: "string \<Rightarrow> jsval clauses option \<Rightarrow> jsval" where
  \<comment> \<open>\<^verbatim>\<open>payload = { status }\<close>, then the clause fields that are provided and truthy\<close>
  "status_payload status clauses =
     JObj ([(''status'', JStr status)] @
       (case clauses of
          None \<Rightarrow> []
        | Some c \<Rightarrow>
            (if truthy (indemnificationText c)
             then [(''indemnificationText'', indemnificationText c)] else []) @
            (if truthy (terminationText c)
             then [(''terminationText'', terminationText c)] else [])))"

definition updateContractStatus_extract ::
  "environment \<Rightarrow> string \<Rightarrow> string \<Rightarrow> jsval clauses option \<Rightarrow> unit action" where
  \<comment> \<open>\<^verbatim>\<open>updateContractStatus(contractId, status, clauses?)\<close> of \<^verbatim>\<open>extract_knowledge.ts\<close>\<close>
  "updateContractStatus_extract env contractId status clauses =
     try_catch
       (then_do (put_request env (contract_url env contractId) (status_payload status clauses))
          (\<lambda>response. result ()))
       (\<lambda>error. console_error StatusUpdateFailed)"

section \<open>Clause extraction with the language model\<close>

definition prompt :: "string \<Rightarrow> string" where
  \<comment> \<open>the template literal of \<^verbatim>\<open>extractClausesWithAI\<close>, around the first 15000 characters\<close>
  \<open>prompt text =
     join [newline]
       ['''',
        ''    Please analyze the following contract text and extract two specific clauses:'',
        ''    '',
        ''    1. Indemnification or liability clause related to data/security breaches'',
        ''    2. Termination for convenience clause'',
        ''    '',
        ''    For each clause, extract the exact text from the contract. If a clause is not found, indicate that it's not present.'',
        ''    '',
        ''    Format your response as JSON with the following structure:'',
        ''    {'',
        ''      "indemnificationText": "extracted text or 'No indemnification clause found.'",'',
        ''      "terminationText": "extracted text or 'No termination for convenience clause found.'"'',
        ''    }'',
        ''    '',
        ''    Contract text:'',
        ''    '' @ take 15000 text @ ''  // Limiting to 15000 chars to avoid token limits'',
        ''    '']\<close>

definition json_match :: "string \<Rightarrow> string option" where
  \<comment> \<open>\<^verbatim>\<open>responseContent.match(/\{[\s\S]*\}/)\<close>: from the first opening brace to the last
      closing brace after it, when there is one\<close>
  "json_match s =
     (let from_brace = dropWhile (\<lambda>c. c \<noteq> CHR ''{'') s
      in if CHR ''}'' \<in> set from_brace
         then Some (rev (dropWhile (\<lambda>c. c \<noteq> CHR ''}'') (rev from_brace)))
         else None)"

definition or_value :: "jsval \<Rightarrow> jsval \<Rightarrow> jsval" where
  \<comment> \<open>\<^verbatim>\<open>v || d\<close>\<close>
  "or_value v d = (if truthy v then v else d)"

definition as_values :: "string clauses \<Rightarrow> jsval clauses" where
  \<comment> \<open>a pair of strings, as the values they are\<close>
  "as_values c =
     \<lparr> indemnificationText = JStr (indemnificationText c),
       terminationText = JStr (terminationText c) \<rparr>"

definition parse_response :: "environment \<Rightarrow> jsval \<Rightarrow> js_error + jsval" where
  \<comment> \<open>\<^verbatim>\<open>parsedResponse\<close>: only a string has a \<^verbatim>\<open>match\<close> method\<close>
  "parse_response env responseContent =
     (case responseContent of
        JStr s \<Rightarrow>
          (case json_match s of
             Some jsonMatch \<Rightarrow> JSON_parse env jsonMatch
           | None \<Rightarrow> JSON_parse env s)
      | _ \<Rightarrow> Inl TypeError)"

definition read_clauses :: "environment \<Rightarrow> jsval \<Rightarrow> jsval clauses action" where
  \<comment> \<open>the inner \<^verbatim>\<open>try\<close> block\<close>
  "read_clauses env responseContent =
     then_do (evaluate (parse_response env responseContent)) (\<lambda>parsedResponse.
     then_do (evaluate (get parsedResponse ''indemnificationText'')) (\<lambda>indemnification.
     then_do (evaluate (get parsedResponse ''terminationText'')) (\<lambda>termination.
       result \<lparr> indemnificationText = or_value indemnification (JStr no_indemnification),
                terminationText = or_value termination (JStr no_termination) \<rparr>)))"

definition keyword_fallback :: "event \<Rightarrow> string \<Rightarrow> jsval clauses action" where
  \<comment> \<open>either \<^verbatim>\<open>catch\<close> block: a line is logged, then
      \<^verbatim>\<open>return extractClausesWithKeywords(text)\<close>\<close>
  "keyword_fallback ev text =
     then_do (console_error ev) (\<lambda>_. result (as_values (extractClausesWithKeywords text)))"

definition extractClausesWithAI :: "environment \<Rightarrow> string \<Rightarrow> jsval clauses action" where
  "extractClausesWithAI env text =
     try_catch
       (then_do (evaluate (chat_completion env (prompt text))) (\<lambda>responseContent.
          if \<not> truthy responseContent then throw (Error ''Empty response from AI service'')
          else try_catch (read_clauses env responseContent)
                 (\<lambda>parseError. keyword_fallback AiResponseUnparsed text)))
       (\<lambda>error. keyword_fallback AiExtractionError text)"

section \<open>The knowledge-extraction script\<close>

definition parseGsUri :: "string \<Rightarrow> js_error + string \<times> string" where
  "parseGsUri uri =
     (if \<not> startsWith uri ''gs://''
      then Inl (Error ''Invalid Google Storage URI. Must start with gs://'')
      else (case split ''/'' (drop 5 uri) of
              [] \<Rightarrow> Inr ([], [])
            | bucket # rest \<Rightarrow> Inr (bucket, join ''/'' rest)))"

definition extractTextFromOcrJson_logged :: "environment \<Rightarrow> jsval \<Rightarrow> string action" where
  \<comment> \<open>\<^verbatim>\<open>extractTextFromOcrJson\<close> with the line its \<^verbatim>\<open>catch\<close> block prints\<close>
  "extractTextFromOcrJson_logged env jsonContent =
     then_do
       (if threw (ocr_flow (coerce env) jsonContent) then console_error OcrJsonError
        else result ())
       (\<lambda>_. result (extractTextFromOcrJson (coerce env) jsonContent))"

definition read_shard :: "environment \<Rightarrow> storage_file \<Rightarrow> string \<Rightarrow> string \<Rightarrow> string action" where
  \<comment> \<open>the \<^verbatim>\<open>try\<close> / \<^verbatim>\<open>catch\<close> inside the loop over the files; returns \<^verbatim>\<open>combinedText\<close>\<close>
  "read_shard env f content combinedText =
     try_catch
       (then_do (evaluate (JSON_parse env content)) (\<lambda>jsonContent.
        then_do (extractTextFromOcrJson_logged env jsonContent) (\<lambda>extractedText.
          if extractedText \<noteq> [] then result (combinedText @ extractedText @ blank_line)
          else then_do (console_error (NoTextInShard (file_name f)))
                 (\<lambda>_. result combinedText))))
       (\<lambda>parseError.
          then_do (console_error (ShardParseError (file_name f))) (\<lambda>_. result combinedText))"

fun shards_loop :: "environment \<Rightarrow> storage_file list \<Rightarrow> string \<Rightarrow> string action" where
  \<comment> \<open>\<^verbatim>\<open>for (const file of files)\<close>; returns \<^verbatim>\<open>combinedText\<close>\<close>
  "shards_loop env [] combinedText = result combinedText"
| "shards_loop env (f # files) combinedText =
     (if \<not> endsWith (file_name f) ''.json'' then shards_loop env files combinedText
      else then_do (evaluate (file_download f)) (\<lambda>content.
           then_do (read_shard env f content combinedText) (\<lambda>combinedText'.
             shards_loop env files combinedText')))"

definition data_path :: "string \<Rightarrow> string \<Rightarrow> string" where
  \<comment> \<open>\<^verbatim>\<open>../../data/<stem>_<id>.txt\<close>, relative to the script's directory\<close>
  "data_path stem contractId = ''../../data/'' @ stem @ ''_'' @ contractId @ ''.txt''"

definition knowledge_steps :: "environment \<Rightarrow> string \<Rightarrow> string \<Rightarrow> unit action" where
  \<comment> \<open>the \<^verbatim>\<open>try\<close> block of \<^verbatim>\<open>extractKnowledge\<close>\<close>
  "knowledge_steps env gsUri contractId =
     then_do (updateContractStatus_extract env contractId ''extracting'' None) (\<lambda>_.
     then_do (evaluate (parseGsUri gsUri)) (\<lambda>(bucketName, sourcePath).
     then_do (evaluate (getFiles env bucketName sourcePath)) (\<lambda>files.
     then_do (shards_loop env files []) (\<lambda>combinedText.
     then_do (evaluate (prepare_directory env)) (\<lambda>_.
     then_do (evaluate (writeFileSync env (data_path ''extracted_knowledge'' contractId)
                (JStr combinedText))) (\<lambda>_.
     then_do (extractClausesWithAI env combinedText) (\<lambda>clauses.
     then_do (evaluate (writeFileSync env (data_path ''indemnification_clause'' contractId)
                (indemnificationText clauses))) (\<lambda>_.
     then_do (evaluate (writeFileSync env (data_path ''termination_clause'' contractId)
                (terminationText clauses))) (\<lambda>_.
       updateContractStatus_extract env contractId ''completed'' (Some clauses))))))))))"

definition extractKnowledge :: "environment \<Rightarrow> string \<Rightarrow> string \<Rightarrow> world \<Rightarrow> nat \<times> world" where
  \<comment> \<open>the script run as a process: its exit code and the world it leaves. The
      \<^verbatim>\<open>catch\<close> block ends in \<^verbatim>\<open>process.exit(1)\<close>, and so does the \<^verbatim>\<open>.catch\<close> of the
      call, should the block itself throw.\<close>
  "extractKnowledge env gsUri contractId w =
     (case try_catch
             (then_do (knowledge_steps env gsUri contractId) (\<lambda>_. result 0))
             (\<lambda>error.
                then_do (console_error KnowledgeExtractionError) (\<lambda>_.
                then_do (updateContractStatus_extract env contractId ''failed'' None) (\<lambda>_.
                  result 1))) w of
        (Inr code, w') \<Rightarrow> (code, w')
      | (Inl e, w') \<Rightarrow> (1, w'))"

section \<open>The document-processing script\<close>

definition output_uri :: "environment \<Rightarrow> string \<Rightarrow> string" where
  "output_uri env contractId =
     ''gs://'' @ env_or (GCS_BUCKET_NAME env) ''fb_dioptra_process'' @ ''/output/'' @ contractId @ ''/''"

definition extractTextFromPDF :: "environment \<Rightarrow> string \<Rightarrow> string \<Rightarrow> string action" where
  \<comment> \<open>\<^verbatim>\<open>asyncBatchAnnotateFiles\<close> and \<^verbatim>\<open>operation.promise()\<close> are one call of the
      environment\<close>
  "extractTextFromPDF env gcsUri contractId =
     then_do (evaluate (annotate_files env gcsUri (output_uri env contractId))) (\<lambda>_.
       result (''Text extraction complete. Results stored in: '' @ output_uri env contractId))"

definition runExtractKnowledge :: "environment \<Rightarrow> string \<Rightarrow> string \<Rightarrow> unit action" where
  \<comment> \<open>the spawned \<^verbatim>\<open>extract_knowledge.ts <id> <gcsUri>\<close>, which calls
      \<^verbatim>\<open>extractKnowledge(gsUri, id)\<close>; the promise rejects on a non-zero exit code\<close>
  "runExtractKnowledge env contractId gcsUri w =
     (case extractKnowledge env gcsUri contractId w of
        (code, w') \<Rightarrow>
          if code = 0 then (Inr (), w')
          else then_do (console_error KnowledgeExtractionFailed)
                 (\<lambda>_. throw (Error ''Knowledge extraction failed'')) w')"

definition process_steps :: "environment \<Rightarrow> string \<Rightarrow> string \<Rightarrow> unit action" where
  \<comment> \<open>the \<^verbatim>\<open>try\<close> block of \<^verbatim>\<open>main\<close>\<close>
  "process_steps env contractId gcsUri =
     then_do (updateContractStatus_process env contractId ''processing'') (\<lambda>_.
     then_do (extractTextFromPDF env gcsUri contractId) (\<lambda>resultMessage.
       runExtractKnowledge env contractId (output_uri env contractId)))"

definition main :: "environment \<Rightarrow> string list \<Rightarrow> unit action" where
  \<comment> \<open>\<^verbatim>\<open>main\<close> on the arguments after the script's name; with fewer than two non-empty
      arguments it prints the usage and exits\<close>
  "main env argv =
     (case argv of
        contractId # gcsUri # _ \<Rightarrow>
          if contractId = [] \<or> gcsUri = [] then console_error Usage
          else try_catch (process_steps env contractId gcsUri)
                 (\<lambda>err. then_do (console_error ProcessingError) (\<lambda>_.
                    updateContractStatus_process env contractId ''failed''))
      | _ \<Rightarrow> console_error Usage)"

definition start :: world where
  "start = \<lparr> requests = [], errors = [] \<rparr>"

section \<open>The record-update endpoint\<close>

text \<open>
  \<^verbatim>\<open>PUT /api/contracts/[id]\<close>. The table of contracts is the one of the Prisma model.
  The handler calls \<^verbatim>\<open>prisma.contract.update({ where: { id }, data })\<close>, which it does not
  define: the call is a parameter of the handler, a function from the table, the id and
  the update data to the updated row and the table after the update, or to the error the
  call throws (the table is then as it was).
\<close>

record contract =
  fileName :: string
  uploadedAt :: nat
  stored_indemnificationText :: "string option"
  stored_terminationText :: "string option"
  stored_status :: string
  progress :: int

type_synonym table = "string \<rightharpoonup> contract"

datatype store_error =
    KnownRequestError string     \<comment> \<open>a Prisma error with a \<^verbatim>\<open>code\<close>\<close>
  | ValidationError              \<comment> \<open>a value that does not fit its column\<close>
  | ConnectionError              \<comment> \<open>the database cannot be reached\<close>
  | ScriptError js_error         \<comment> \<open>an exception of the handler's own code\<close>

type_synonym store = "table \<Rightarrow> string \<Rightarrow> (string \<times> jsval) list \<Rightarrow> store_error + contract \<times> table"

datatype response_body = ErrorMessage string | ContractJson contract

record response =
  status_code :: nat
  response_json :: response_body

definition script :: "js_error + 'a \<Rightarrow> store_error + 'a" where
  "script r = (case r of Inl e \<Rightarrow> Inl (ScriptError e) | Inr v \<Rightarrow> Inr v)"

definition and_so :: "store_error + 'a \<Rightarrow> ('a \<Rightarrow> store_error + 'b) \<Rightarrow> store_error + 'b" where
  "and_so r k = (case r of Inl e \<Rightarrow> Inl e | Inr v \<Rightarrow> k v)"

definition updateData_of :: "jsval \<Rightarrow> jsval \<Rightarrow> jsval \<Rightarrow> (string \<times> jsval) list" where
  \<comment> \<open>\<^verbatim>\<open>updateData\<close>: the status, then each clause of the payload that is truthy\<close>
  "updateData_of status indemnification termination =
     [(''status'', status)] @
     (if truthy indemnification then [(''indemnificationText'', indemnification)] else []) @
     (if truthy termination then [(''terminationText'', termination)] else [])"

definition put_steps ::
  "coercions \<Rightarrow> store \<Rightarrow> table \<Rightarrow> string \<Rightarrow> js_error + jsval \<Rightarrow> store_error + response \<times> table" where
  \<comment> \<open>the \<^verbatim>\<open>try\<close> block of \<^verbatim>\<open>PUT\<close>; \<open>request_json\<close> is \<^verbatim>\<open>await request.json()\<close>. The
      line logged before the update converts the status to a string, which throws for an
      object with a \<^verbatim>\<open>toString\<close> of its own. The row that \<open>update\<close> returns is an object,
      so the test \<^verbatim>\<open>!updatedContract\<close> is false.\<close>
  "put_steps cv update db contractId request_json =
     and_so (script request_json) (\<lambda>data.
     and_so (script (get data ''status'')) (\<lambda>status.
       if \<not> truthy status
       then Inr (\<lparr>status_code = 400, response_json = ErrorMessage ''Status field is required''\<rparr>, db)
       else
     and_so (script (to_string cv status)) (\<lambda>logged.
     and_so (script (get data ''indemnificationText'')) (\<lambda>indemnification.
     and_so (script (get data ''terminationText'')) (\<lambda>termination.
     and_so (update db contractId
               (updateData_of status indemnification termination)) (\<lambda>(updatedContract, db').
       Inr (\<lparr>status_code = 200, response_json = ContractJson updatedContract\<rparr>, db')))))))"

definition PUT ::
  "coercions \<Rightarrow> store \<Rightarrow> table \<Rightarrow> string \<Rightarrow> js_error + jsval \<Rightarrow> response \<times> table" where
  \<comment> \<open>the response, and the table after the request\<close>
  "PUT cv update db contractId request_json =
     (case put_steps cv update db contractId request_json of
        Inr answer \<Rightarrow> answer
      | Inl error \<Rightarrow>
          if error = KnownRequestError ''P2025''
          then (\<lparr>status_code = 404, response_json = ErrorMessage ''Contract not found''\<rparr>, db)
          else (\<lparr>status_code = 500, response_json = ErrorMessage ''Failed to update contract status''\<rparr>, db))"

definition writes_given_columns :: "store \<Rightarrow> bool" where
  \<comment> \<open>what the handler relies on in the store: an update that returns has written into
      the row of the id, which was there, and only into the columns that its data name\<close>
  "writes_given_columns update \<longleftrightarrow>
     (\<forall>db contractId updateData row' db'.
        update db contractId updateData = Inr (row', db') \<longrightarrow>
        (\<exists>row. db contractId = Some row \<and> db' = db(contractId \<mapsto> row') \<and>
           (''fileName'' \<notin> fst ` set updateData \<longrightarrow> fileName row' = fileName row) \<and>
           (''uploadedAt'' \<notin> fst ` set updateData \<longrightarrow> uploadedAt row' = uploadedAt row) \<and>
           (''progress'' \<notin> fst ` set updateData \<longrightarrow> progress row' = progress row) \<and>
           (''status'' \<notin> fst ` set updateData \<longrightarrow> stored_status row' = stored_status row) \<and>
           (''indemnificationText'' \<notin> fst ` set updateData \<longrightarrow>
              stored_indemnificationText row' = stored_indemnificationText row) \<and>
           (''terminationText'' \<notin> fst ` set updateData \<longrightarrow>
              stored_terminationText row' = stored_terminationText row)))"

text \<open>
  The store of the schema, for the three columns the handler can name. The update input
  of Prisma takes, for a column \<^verbatim>\<open>String?\<close>, a string, \<^verbatim>\<open>null\<close>, or the operation object
  \<^verbatim>\<open>{ set: <string or null> }\<close>; for the column of the enumeration, one of its names or
  \<^verbatim>\<open>{ set: <name> }\<close>. An operation object has exactly one property. Any other value is
  rejected before the database is asked; an id without a row is the known request error
  \<^verbatim>\<open>P2025\<close>.
\<close>

definition contract_statuses :: "string list" where
  \<comment> \<open>\<^verbatim>\<open>enum ContractStatus\<close>\<close>
  "contract_statuses = [''pending'', ''processing'', ''extracting'', ''completed'', ''failed'']"

fun set_operand :: "jsval \<Rightarrow> jsval option" where
  \<comment> \<open>the operand of \<^verbatim>\<open>{ set: x }\<close>\<close>
  "set_operand (JObj [(k, x)]) = (if k = ''set'' then Some x else None)"
| "set_operand v = None"

fun nullable_string :: "jsval \<Rightarrow> string option option" where
  \<comment> \<open>a value for a column \<^verbatim>\<open>String?\<close>: \<open>Some None\<close> is \<^verbatim>\<open>null\<close>, \<open>None\<close> no such value\<close>
  "nullable_string (JStr s) = Some (Some s)"
| "nullable_string JNull = Some None"
| "nullable_string v = None"

fun status_name :: "jsval \<Rightarrow> string option" where
  "status_name (JStr s) = (if s \<in> set contract_statuses then Some s else None)"
| "status_name v = None"

definition clause_input :: "jsval \<Rightarrow> string option option" where
  \<comment> \<open>what an accepted input writes into a clause column\<close>
  "clause_input v =
     (case nullable_string v of
        Some x \<Rightarrow> Some x
      | None \<Rightarrow> (case set_operand v of Some x \<Rightarrow> nullable_string x | None \<Rightarrow> None))"

definition status_input :: "jsval \<Rightarrow> string option" where
  \<comment> \<open>what an accepted input writes into the status column\<close>
  "status_input v =
     (case status_name v of
        Some s \<Rightarrow> Some s
      | None \<Rightarrow> (case set_operand v of Some x \<Rightarrow> status_name x | None \<Rightarrow> None))"

definition accepted_field :: "string \<times> jsval \<Rightarrow> bool" where
  "accepted_field kv =
     (if fst kv = ''status'' then status_input (snd kv) \<noteq> None
      else if fst kv = ''indemnificationText'' \<or> fst kv = ''terminationText''
      then clause_input (snd kv) \<noteq> None
      else False)"

definition write_field :: "contract \<Rightarrow> string \<times> jsval \<Rightarrow> contract" where
  "write_field c kv =
     (if fst kv = ''status''
      then (case status_input (snd kv) of Some s \<Rightarrow> c\<lparr>stored_status := s\<rparr> | None \<Rightarrow> c)
      else if fst kv = ''indemnificationText''
      then (case clause_input (snd kv) of
              Some x \<Rightarrow> c\<lparr>stored_indemnificationText := x\<rparr> | None \<Rightarrow> c)
      else if fst kv = ''terminationText''
      then (case clause_input (snd kv) of
              Some x \<Rightarrow> c\<lparr>stored_terminationText := x\<rparr> | None \<Rightarrow> c)
      else c)"

definition prisma_contract_update :: store where
  \<comment> \<open>\<^verbatim>\<open>prisma.contract.update({ where: { id }, data })\<close> on a database that answers\<close>
  "prisma_contract_update db contractId updateData =
     (if \<not> list_all accepted_field updateData then Inl ValidationError
      else (case db contractId of
              None \<Rightarrow> Inl (KnownRequestError ''P2025'')
            | Some row \<Rightarrow>
                (let row' = foldl write_field row updateData
                 in Inr (row', db(contractId \<mapsto> row')))))"

section \<open>Shards of a known shape\<close>

text \<open>
  The two shapes of shard the OCR engine writes, built from their text: a response that
  carries the flattened text (and any other property of the annotation), and a response
  that has the page structure only. The walks below are the text the description of the
  reassembler asks for: the symbols of a word and a space after the word, a newline after
  each paragraph, a blank line after each page.
\<close>

definition annotated_response :: "string \<Rightarrow> (string \<times> jsval) list \<Rightarrow> jsval" where
  "annotated_response t others =
     JObj [(''fullTextAnnotation'', JObj ((''text'', JStr t) # others))]"

type_synonym ocr_word = "string list"
type_synonym ocr_paragraph = "ocr_word list"
type_synonym ocr_block = "ocr_paragraph list"
type_synonym ocr_page = "ocr_block list"

definition enc_symbol :: "string \<Rightarrow> jsval" where
  "enc_symbol s = JObj [(''text'', JStr s)]"

definition enc_word :: "ocr_word \<Rightarrow> jsval" where
  "enc_word symbols = JObj [(''symbols'', JArr (map enc_symbol symbols))]"

definition enc_paragraph :: "ocr_paragraph \<Rightarrow> jsval" where
  "enc_paragraph ws = JObj [(''words'', JArr (map enc_word ws))]"

definition enc_block :: "ocr_block \<Rightarrow> jsval" where
  "enc_block paragraphs = JObj [(''paragraphs'', JArr (map enc_paragraph paragraphs))]"

definition enc_page :: "ocr_page \<Rightarrow> jsval" where
  "enc_page blocks = JObj [(''blocks'', JArr (map enc_block blocks))]"

definition structured_response :: "ocr_page list \<Rightarrow> jsval" where
  "structured_response pages =
     JObj [(''fullTextAnnotation'', JObj [(''pages'', JArr (map enc_page pages))])]"

definition word_walk :: "ocr_word \<Rightarrow> string" where
  "word_walk symbols = concat symbols @ '' ''"

definition paragraph_walk :: "ocr_paragraph \<Rightarrow> string" where
  "paragraph_walk ws = concat (map word_walk ws) @ [newline]"

definition block_walk :: "ocr_block \<Rightarrow> string" where
  "block_walk paragraphs = concat (map paragraph_walk paragraphs)"

definition page_walk :: "ocr_page \<Rightarrow> string" where
  "page_walk blocks = concat (map block_walk blocks) @ blank_line"

definition structural_walk :: "ocr_page list \<Rightarrow> string" where
  "structural_walk pages = concat (map page_walk pages)"

section \<open>Sample environments\<close>

text \<open>
  Two environments to run the scripts in: one in which every outside call fails, and one
  in which every call succeeds, the bucket holds no shard and the model answers with the
  two sentinels. The examples below change single fields of them.
\<close>

definition plain_coercions :: coercions where
  "plain_coercions = \<lparr> number_string = (\<lambda>n. ''0''), string_exceeds = (\<lambda>s i. False) \<rparr>"

definition failing_environment :: environment where
  "failing_environment =
     \<lparr> coerce = plain_coercions,
       JSON_parse = (\<lambda>s. Inl SyntaxError),
       API_BASE_URL = None,
       GCS_BUCKET_NAME = None,
       axios_put = (\<lambda>n u p. Inl Rejected),
       annotate_files = (\<lambda>source target. Inl Rejected),
       getFiles = (\<lambda>bucket path. Inl Rejected),
       prepare_directory = Inl Rejected,
       writeFileSync = (\<lambda>path data. Inl Rejected),
       chat_completion = (\<lambda>p. Inl Rejected) \<rparr>"

definition sentinel_reply :: jsval where
  "sentinel_reply =
     JObj [(''indemnificationText'', JStr no_indemnification),
           (''terminationText'', JStr no_termination)]"

definition working_environment :: environment where
  "working_environment =
     \<lparr> coerce = plain_coercions,
       JSON_parse = (\<lambda>s. if s = ''{}'' then Inr sentinel_reply else Inl SyntaxError),
       API_BASE_URL = None,
       GCS_BUCKET_NAME = None,
       axios_put = (\<lambda>n u p. Inr 200),
       annotate_files = (\<lambda>source target. Inr ()),
       getFiles = (\<lambda>bucket path. Inr []),
       prepare_directory = Inr (),
       writeFileSync = (\<lambda>path data. Inr ()),
       chat_completion = (\<lambda>p. Inr (JStr ''{}'')) \<rparr>"

definition numeric_reply :: jsval where
  \<comment> \<open>the value of \<^verbatim>\<open>JSON.parse('{"indemnificationText": 42, "terminationText": "x"}')\<close>\<close>
  "numeric_reply =
     JObj [(''indemnificationText'', JNum (Finite 42)), (''terminationText'', JStr ''x'')]"

definition numeric_reply_text :: string where
  \<open>numeric_reply_text = ''{"indemnificationText": 42, "terminationText": "x"}''\<close>

definition numeric_environment :: environment where
  \<comment> \<open>the model answers with a number for the first clause\<close>
  "numeric_environment =
     failing_environment
       \<lparr> JSON_parse := (\<lambda>s. if s = numeric_reply_text then Inr numeric_reply else Inl SyntaxError),
         chat_completion := (\<lambda>p. Inr (JStr numeric_reply_text)) \<rparr>"

definition sample_contract :: contract where
  "sample_contract =
     \<lparr> fileName = ''msa.pdf'', uploadedAt = 0,
       stored_indemnificationText = Some ''Old indemnification clause.'',
       stored_terminationText = None,
       stored_status = ''extracting'', progress = 0 \<rparr>"

definition sample_table :: table where
  "sample_table = [''c1'' \<mapsto> sample_contract]"

definition sample_payload :: jsval where
  \<comment> \<open>a payload with an empty indemnification clause\<close>
  "sample_payload =
     JObj [(''status'', JStr ''completed''), (''indemnificationText'', JStr []),
           (''terminationText'', JStr ''Either party may terminate at will.'')]"

definition erasing_payload :: jsval where
  \<comment> \<open>the value of
      \<^verbatim>\<open>JSON.parse('{"status": "completed", "indemnificationText": {"set": null}}')\<close>\<close>
  "erasing_payload =
     JObj [(''status'', JStr ''completed''),
           (''indemnificationText'', JObj [(''set'', JNull)])]"

section \<open>What a run shows to the record store\<close>

definition payloads :: "world \<Rightarrow> jsval list" where
  \<comment> \<open>the bodies of the PUT requests issued so far\<close>
  "payloads w = map payload (requests w)"

definition status_only :: "string \<Rightarrow> jsval" where
  \<comment> \<open>\<^verbatim>\<open>{ status }\<close>\<close>
  "status_only s = JObj [(''status'', JStr s)]"

definition completed_with :: "jsval clauses \<Rightarrow> jsval" where
  \<comment> \<open>\<^verbatim>\<open>{ status: 'completed', indemnificationText, terminationText }\<close>\<close>
  "completed_with c =
     JObj [(''status'', JStr ''completed''),
           (''indemnificationText'', indemnificationText c),
           (''terminationText'', terminationText c)]"

definition completes_or_fails :: "unit action \<Rightarrow> bool" where
  \<comment> \<open>the code either throws without a request, or returns after the one request that
      reports the completion with both clauses\<close>
  "completes_or_fails a \<longleftrightarrow>
     (\<forall>w. case a w of
            (Inl e, w') \<Rightarrow> payloads w' = payloads w
          | (Inr u, w') \<Rightarrow>
              (\<exists>c. truthy (indemnificationText c) \<and> truthy (terminationText c) \<and>
                   payloads w' = payloads w @ [completed_with c]))"

section \<open>Two more sample environments\<close>






section \<open>The files of a run\<close>






section \<open>Runs that differ in the answers of the record store\<close>

definition same_but_lost_updates :: "world \<Rightarrow> world \<Rightarrow> bool" where
  \<comment> \<open>the same requests in the same order, and the same lines logged but for the lines
      that report a failed status update\<close>
  "same_but_lost_updates w w' \<longleftrightarrow>
     requests w = requests w' \<and>
     filter (\<lambda>ev. ev \<noteq> StatusUpdateFailed) (errors w) =
     filter (\<lambda>ev. ev \<noteq> StatusUpdateFailed) (errors w')"

definition alike :: "'a action \<Rightarrow> 'a action \<Rightarrow> bool" where
  \<comment> \<open>from worlds that agree in this way, the two pieces of code return or throw the
      same and leave worlds that agree again\<close>
  "alike a b \<longleftrightarrow>
     (\<forall>w w'. same_but_lost_updates w w' \<longrightarrow>
        fst (a w) = fst (b w') \<and> same_but_lost_updates (snd (a w)) (snd (b w')))"

section \<open>Properties of the string functions\<close>

lemma split_nonempty: "split sep s \<noteq> []"
  by (induction sep s rule: split.induct) (auto split: list.splits)

lemma join_Cons: "ps \<noteq> [] \<Longrightarrow> join sep (p # ps) = p @ sep @ join sep ps"
  by (cases ps) auto

lemma split_first_prefix: "prefix (hd (split sep s)) s"
  by (induction sep s rule: split.induct) (auto split: list.splits)

lemma join_split: "sep \<noteq> [] \<Longrightarrow> join sep (split sep s) = s"
proof (induction sep s rule: split.induct)
  case (1 sep)
  then show ?case by simp
next
  case (2 sep c cs)
  show ?case
  proof (cases "prefix sep (c # cs)")
    case True
    then obtain r where r: "c # cs = sep @ r" by (auto simp: prefix_def)
    then have d: "drop (length sep) (c # cs) = r" by (metis append_eq_conv_conj)
    from 2(1)[OF conjI[OF 2(3) True]] 2(3) have "join sep (split sep r) = r"
      unfolding d by simp
    then have "join sep ([] # split sep r) = sep @ r"
      by (simp add: join_Cons split_nonempty)
    moreover have "split sep (c # cs) = [] # split sep r"
      using True 2(3) d by simp
    ultimately show ?thesis using r by simp
  next
    case False
    then have ih: "join sep (split sep cs) = cs" using 2(2) 2(3) by simp
    obtain p ps where sp: "split sep cs = p # ps"
      using split_nonempty by (cases "split sep cs") auto
    have e: "split sep (c # cs) = (c # p) # ps" using False sp by simp
    show ?thesis
    proof (cases ps)
      case Nil
      with e sp ih show ?thesis by simp
    next
      case (Cons q qs)
      with e sp ih show ?thesis by simp
    qed
  qed
qed

lemma split_pieces_free:
  "sep \<noteq> [] \<Longrightarrow> p \<in> set (split sep s) \<Longrightarrow> \<not> sublist sep p"
proof (induction sep s arbitrary: p rule: split.induct)
  case (1 sep)
  then show ?case by simp
next
  case (2 sep c cs)
  show ?case
  proof (cases "prefix sep (c # cs)")
    case True
    then have e: "split sep (c # cs) = [] # split sep (drop (length sep) (c # cs))"
      using 2(3) by simp
    from 2(4) e have "p = [] \<or> p \<in> set (split sep (drop (length sep) (c # cs)))" by simp
    then show ?thesis
    proof
      assume "p = []" with 2(3) show ?thesis by simp
    next
      assume "p \<in> set (split sep (drop (length sep) (c # cs)))"
      with 2(1)[OF conjI[OF 2(3) True] 2(3)] show ?thesis .
    qed
  next
    case False
    obtain q qs where sp: "split sep cs = q # qs"
      using split_nonempty by (cases "split sep cs") auto
    have e: "split sep (c # cs) = (c # q) # qs" using False sp by simp
    have nf: "\<not> (sep \<noteq> [] \<and> prefix sep (c # cs))" using False by simp
    have q: "\<not> sublist sep q" using 2(2)[OF nf 2(3), of q] sp by simp
    have pq: "prefix q cs" using split_first_prefix[of sep cs] sp by simp
    have "\<not> prefix sep (c # q)"
    proof
      assume "prefix sep (c # q)"
      moreover have "prefix (c # q) (c # cs)" using pq by simp
      ultimately have "prefix sep (c # cs)" by (rule prefix_order.trans)
      with False show False by simp
    qed
    then have cq: "\<not> sublist sep (c # q)" using q
      by (simp add: sublist_Cons_right)
    from 2(4) e have "p = c # q \<or> p \<in> set qs" by simp
    then show ?thesis
    proof
      assume "p = c # q" with cq show ?thesis by simp
    next
      assume "p \<in> set qs"
      then have "p \<in> set (split sep cs)" using sp by simp
      with 2(2)[OF nf 2(3)] show ?thesis .
    qed
  qed
qed

lemma is_space_newline: "is_space newline"
  by (simp add: is_space_def newline_def)

lemma trim_Nil: "trim [] = []"
  by (simp add: trim_def)

lemma trim_append_blank_line: "trim (s @ blank_line) = trim s"
proof (cases "\<forall>c\<in>set s. is_space c")
  case True
  then have "dropWhile is_space (s @ blank_line) = []"
    by (simp add: dropWhile_eq_Nil_conv blank_line_def is_space_newline)
  moreover from True have "dropWhile is_space s = []"
    by (simp add: dropWhile_eq_Nil_conv)
  ultimately show ?thesis unfolding trim_def by (simp only:)
next
  case False
  then have "dropWhile is_space (s @ blank_line) = dropWhile is_space s @ blank_line"
    by (auto simp: dropWhile_append1)
  then show ?thesis
    by (simp add: trim_def blank_line_def is_space_newline)
qed

lemma concat_blank_join:
  "xs \<noteq> [] \<Longrightarrow> concat (map (\<lambda>t. t @ sep) xs) = join sep xs @ sep"
  by (induction sep xs rule: join.induct) auto

lemma trim_concat_join:
  "trim (concat (map (\<lambda>t. t @ blank_line) xs)) = trim (join blank_line xs)"
  by (cases "xs = []") (simp_all add: concat_blank_join trim_append_blank_line)

lemma includes_lower_iff:
  "string_includes (toLowerCase p) k \<longleftrightarrow> (\<exists>u v w. p = u @ v @ w \<and> toLowerCase v = k)"
proof
  assume "string_includes (toLowerCase p) k"
  then obtain a b where "map lower_char p = a @ (k @ b)"
    by (auto simp: string_includes_def toLowerCase_def sublist_def)
  then obtain u r where u: "p = u @ r" and r: "map lower_char r = k @ b"
    by (metis map_eq_append_conv)
  from r obtain v w where "r = v @ w" "map lower_char v = k"
    by (metis map_eq_append_conv)
  with u show "\<exists>u v w. p = u @ v @ w \<and> toLowerCase v = k"
    unfolding toLowerCase_def by blast
next
  assume "\<exists>u v w. p = u @ v @ w \<and> toLowerCase v = k"
  then obtain u v w where "p = u @ v @ w" "map lower_char v = k"
    unfolding toLowerCase_def by blast
  then have "map lower_char p = map lower_char u @ k @ map lower_char w" by auto
  then show "string_includes (toLowerCase p) k"
    unfolding string_includes_def toLowerCase_def sublist_def by blast
qed

section \<open>The keyword extractor\<close>

lemma foldl_keyword_step:
  "foldl keyword_step b ps =
     \<lparr> indemnificationText = indemnificationText b @
          concat (map (\<lambda>p. p @ blank_line) (filter is_indemnification ps)),
       terminationText = terminationText b @
          concat (map (\<lambda>p. p @ blank_line) (filter is_termination ps)) \<rparr>"
  by (induction ps arbitrary: b) (simp_all add: keyword_step_def)

lemma member_in_buffer:
  assumes "p \<in> set ps" "P p"
  shows "sublist p (concat (map (\<lambda>p. p @ sep) (filter P ps)))"
proof -
  from assms(1) obtain xs ys where "ps = xs @ p # ys" by (auto dest: split_list)
  with assms(2) show ?thesis
    unfolding sublist_def by auto
qed

lemma blank_line_nonempty: "blank_line \<noteq> []"
  by (simp add: blank_line_def)

lemma lower_char_space: "is_space c \<Longrightarrow> lower_char c = c"
  by (auto simp: is_space_def lower_char_def Let_def)

lemma dropWhile_front:
  assumes "m \<noteq> []" "\<not> P (hd m)"
  shows "dropWhile P (X @ m @ Y) = dropWhile P X @ m @ Y"
proof -
  have m: "dropWhile P (m @ Y) = m @ Y"
    using assms by (cases m) auto
  show ?thesis
  proof (cases "\<forall>x\<in>set X. P x")
    case True
    then have "dropWhile P X = []" by simp
    with True m show ?thesis by (simp add: dropWhile_append)
  next
    case False
    then show ?thesis by (auto simp: dropWhile_append1)
  qed
qed

lemma trim_middle:
  assumes "m \<noteq> []" "\<not> is_space (hd m)" "\<not> is_space (last m)"
  shows "trim (X @ m @ Y) = dropWhile is_space X @ m @ rev (dropWhile is_space (rev Y))"
proof -
  have a: "dropWhile is_space (X @ m @ Y) = dropWhile is_space X @ m @ Y"
    using assms(1,2) by (rule dropWhile_front)
  have "rev m \<noteq> []" "\<not> is_space (hd (rev m))"
    using assms(1,3) by (simp_all add: hd_rev)
  then have b: "dropWhile is_space (rev Y @ rev m @ rev (dropWhile is_space X)) =
      dropWhile is_space (rev Y) @ rev m @ rev (dropWhile is_space X)"
    by (rule dropWhile_front)
  show ?thesis
    unfolding trim_def a by (simp add: b)
qed

lemma trim_suffix:
  "dropWhile is_space p = trim p @ rev (takeWhile is_space (rev (dropWhile is_space p)))"
proof -
  let ?q = "dropWhile is_space p"
  have "?q = rev (takeWhile is_space (rev ?q) @ dropWhile is_space (rev ?q))"
    by (simp only: takeWhile_dropWhile_id rev_rev_ident)
  then show ?thesis by (simp only: rev_append trim_def)
qed

lemma trim_decomposition:
  "\<exists>l r. p = l @ trim p @ r \<and> (\<forall>c\<in>set l. is_space c) \<and> (\<forall>c\<in>set r. is_space c)"
proof -
  let ?q = "dropWhile is_space p"
  let ?l = "takeWhile is_space p"
  let ?r = "rev (takeWhile is_space (rev ?q))"
  have "p = ?l @ ?q" by simp
  also have "?q = trim p @ ?r" by (rule trim_suffix)
  finally have "p = ?l @ trim p @ ?r" .
  moreover have "\<forall>c\<in>set ?l. is_space c" by (auto dest: set_takeWhileD)
  moreover have "\<forall>c\<in>set ?r. is_space c" by (auto dest: set_takeWhileD)
  ultimately show ?thesis by blast
qed

lemma trim_ends:
  assumes "trim p \<noteq> []"
  shows "\<not> is_space (hd (trim p)) \<and> \<not> is_space (last (trim p))"
proof -
  let ?q = "dropWhile is_space p"
  have ne: "dropWhile is_space (rev ?q) \<noteq> []" using assms by (simp add: trim_def)
  then have "\<not> is_space (hd (dropWhile is_space (rev ?q)))" by (rule hd_dropWhile)
  then have last: "\<not> is_space (last (trim p))" using ne by (simp add: trim_def last_rev)
  have qne: "?q \<noteq> []"
  proof
    assume "?q = []"
    then have "dropWhile is_space (rev ?q) = []" by (simp only: rev.simps dropWhile.simps)
    with ne show False by simp
  qed
  then have hq: "\<not> is_space (hd ?q)" by (rule hd_dropWhile)
  have "?q = trim p @ rev (takeWhile is_space (rev ?q))" by (rule trim_suffix)
  then have "hd ?q = hd (trim p)" using assms by (metis hd_append2)
  with hq last show ?thesis by simp
qed

lemma trim_nonempty:
  assumes "c \<in> set p" "\<not> is_space c"
  shows "trim p \<noteq> []"
proof -
  obtain l r where d: "p = l @ trim p @ r" "\<forall>c\<in>set l. is_space c" "\<forall>c\<in>set r. is_space c"
    using trim_decomposition by blast
  show ?thesis
  proof
    assume "trim p = []"
    with d have "\<forall>c\<in>set p. is_space c" by (metis Un_iff append_Nil set_append)
    with assms show False by blast
  qed
qed

lemma trimmed_member_in_trim:
  assumes "p \<in> set ps" "Q p" "trim p \<noteq> []"
  shows "sublist (trim p) (trim (concat (map (\<lambda>p. p @ sep) (filter Q ps)))) \<and>
         trim (concat (map (\<lambda>p. p @ sep) (filter Q ps))) \<noteq> []"
proof -
  from assms(1) obtain xs ys where ps: "ps = xs @ p # ys" by (auto dest: split_list)
  obtain l r where d: "p = l @ trim p @ r" using trim_decomposition by blast
  let ?A = "concat (map (\<lambda>p. p @ sep) (filter Q xs)) @ l"
  let ?C = "r @ sep @ concat (map (\<lambda>p. p @ sep) (filter Q ys))"
  have "concat (map (\<lambda>p. p @ sep) (filter Q ps)) =
      concat (map (\<lambda>p. p @ sep) (filter Q xs)) @ (p @ sep) @
      concat (map (\<lambda>p. p @ sep) (filter Q ys))"
    using ps assms(2) by simp
  also have "\<dots> = concat (map (\<lambda>p. p @ sep) (filter Q xs)) @ ((l @ trim p @ r) @ sep) @
      concat (map (\<lambda>p. p @ sep) (filter Q ys))"
    using d by simp
  finally have b: "concat (map (\<lambda>p. p @ sep) (filter Q ps)) = ?A @ trim p @ ?C" by simp
  from trim_ends[OF assms(3)] have e: "\<not> is_space (hd (trim p))" "\<not> is_space (last (trim p))"
    by simp_all
  have "trim (?A @ trim p @ ?C) =
      dropWhile is_space ?A @ trim p @ rev (dropWhile is_space (rev ?C))"
    using assms(3) e by (rule trim_middle)
  then have t: "trim (concat (map (\<lambda>p. p @ sep) (filter Q ps))) =
      dropWhile is_space ?A @ trim p @ rev (dropWhile is_space (rev ?C))"
    unfolding b .
  show ?thesis
    unfolding t using assms(3) by (auto simp: sublist_def)
qed

lemma lowered_keyword_not_space:
  assumes "p = u @ v @ w" "toLowerCase v = k" "k \<noteq> []" "\<not> is_space (hd k)"
  shows "\<exists>c\<in>set p. \<not> is_space c"
proof -
  from assms(2,3) have v: "v \<noteq> []" by (auto simp: toLowerCase_def)
  then have h: "lower_char (hd v) = hd k" using assms(2) by (cases v) (auto simp: toLowerCase_def)
  have "\<not> is_space (hd v)"
  proof
    assume "is_space (hd v)"
    with h lower_char_space have "hd k = hd v" by simp
    with \<open>is_space (hd v)\<close> assms(4) show False by simp
  qed
  moreover have "hd v \<in> set p" using v assms(1) by simp
  ultimately show ?thesis by blast
qed


lemma indemnification_not_blank:
  assumes "is_indemnification p"
  shows "trim p \<noteq> []"
proof -
  from assms obtain k u v w where
    k: "k \<in> set [''indemnif'', ''liability'', ''data breach'', ''security breach'']"
    and p: "p = u @ v @ w" "toLowerCase v = k"
    by (auto simp: is_indemnification_def Let_def includes_lower_iff)
  from k have "k \<noteq> []" "\<not> is_space (hd k)" by (auto simp: is_space_def)
  with p obtain c where "c \<in> set p" "\<not> is_space c"
    using lowered_keyword_not_space by blast
  then show ?thesis by (rule trim_nonempty)
qed

lemma termination_not_blank:
  assumes "is_termination p"
  shows "trim p \<noteq> []"
proof -
  from assms obtain u v w where p: "p = u @ v @ w" "toLowerCase v = ''terminat''"
    by (auto simp: is_termination_def Let_def includes_lower_iff)
  have "''terminat'' \<noteq> []" "\<not> is_space (hd ''terminat'')" by (auto simp: is_space_def)
  with p obtain c where "c \<in> set p" "\<not> is_space c"
    using lowered_keyword_not_space by blast
  then show ?thesis by (rule trim_nonempty)
qed

lemma returned_field:
  assumes "\<And>p. Q p \<Longrightarrow> trim p \<noteq> []"
  shows "or_default (trim (concat (map (\<lambda>p. p @ sep) (filter Q ps)))) d =
    (if \<exists>p \<in> set ps. Q p then trim (concat (map (\<lambda>p. p @ sep) (filter Q ps))) else d)"
proof (cases "\<exists>p \<in> set ps. Q p")
  case True
  then obtain p where "p \<in> set ps" "Q p" by blast
  with assms have "trim (concat (map (\<lambda>p. p @ sep) (filter Q ps))) \<noteq> []"
    using trimmed_member_in_trim by blast
  with True show ?thesis by (simp add: or_default_def)
next
  case False
  then have "filter Q ps = []" by (simp add: filter_empty_conv)
  with False show ?thesis by (simp add: or_default_def trim_Nil)
qed

lemma extractClausesWithKeywords_fields:
  "indemnificationText (extractClausesWithKeywords text) =
     (if \<exists>p \<in> set (split blank_line text). is_indemnification p
      then trim (concat (map (\<lambda>p. p @ blank_line)
             (filter is_indemnification (split blank_line text))))
      else no_indemnification)"
  "terminationText (extractClausesWithKeywords text) =
     (if \<exists>p \<in> set (split blank_line text). is_termination p
      then trim (concat (map (\<lambda>p. p @ blank_line)
             (filter is_termination (split blank_line text))))
      else no_termination)"
  using returned_field[of is_indemnification, OF indemnification_not_blank]
    returned_field[of is_termination, OF termination_not_blank]
  by (simp_all add: extractClausesWithKeywords_def Let_def keyword_buffers_def foldl_keyword_step)

lemma trimmed_paragraph_returned:
  assumes "p \<in> set (split blank_line text)"
  shows "is_indemnification p \<Longrightarrow>
      sublist (trim p) (indemnificationText (extractClausesWithKeywords text))"
    and "is_termination p \<Longrightarrow>
      sublist (trim p) (terminationText (extractClausesWithKeywords text))"
proof -
  assume q: "is_indemnification p"
  with assms have "\<exists>p \<in> set (split blank_line text). is_indemnification p" by blast
  then show "sublist (trim p) (indemnificationText (extractClausesWithKeywords text))"
    using trimmed_member_in_trim[OF assms, of is_indemnification, OF q indemnification_not_blank[OF q]]
    by (simp add: extractClausesWithKeywords_fields)
next
  assume q: "is_termination p"
  with assms have "\<exists>p \<in> set (split blank_line text). is_termination p" by blast
  then show "sublist (trim p) (terminationText (extractClausesWithKeywords text))"
    using trimmed_member_in_trim[OF assms, of is_termination, OF q termination_not_blank[OF q]]
    by (simp add: extractClausesWithKeywords_fields)
qed

text \<open>
  C5. The keyword extractor cuts the text at the blank lines: the paragraphs joined by
  blank lines give the text back, and no paragraph contains a blank line. One pass from
  left to right appends to the indemnification buffer every paragraph (with a blank line
  after it) that contains, letter case ignored, one of \<open>indemnif\<close>, \<open>liability\<close>,
  \<open>data breach\<close>, \<open>security breach\<close>, and to the termination buffer every paragraph that
  contains \<open>terminat\<close> and one of \<open>convenience\<close>, \<open>at will\<close>. A paragraph that passes both
  tests is in both buffers. The pair that \<open>extractClausesWithKeywords\<close> returns holds each
  buffer with the white space at its two ends removed, or the sentinel of the field when
  no paragraph passed its test; a paragraph that passed a test is never blank and, with the
  white space at its own ends removed, is part of the field returned for that test, so a
  paragraph that passed both is part of both returned fields.
\<close>

theorem keyword_scan_buffers:
  "join blank_line (split blank_line text) = text \<and>
   (\<forall>p \<in> set (split blank_line text). \<not> sublist blank_line p) \<and>
   keyword_buffers text =
     \<lparr> indemnificationText =
         concat (map (\<lambda>p. p @ blank_line) (filter is_indemnification (split blank_line text))),
       terminationText =
         concat (map (\<lambda>p. p @ blank_line) (filter is_termination (split blank_line text))) \<rparr> \<and>
   (\<forall>p. is_indemnification p \<longleftrightarrow>
      (\<exists>k \<in> set [''indemnif'', ''liability'', ''data breach'', ''security breach''].
         \<exists>u v w. p = u @ v @ w \<and> toLowerCase v = k)) \<and>
   (\<forall>p. is_termination p \<longleftrightarrow>
      (\<exists>u v w. p = u @ v @ w \<and> toLowerCase v = ''terminat'') \<and>
      (\<exists>k \<in> set [''convenience'', ''at will''].
         \<exists>u v w. p = u @ v @ w \<and> toLowerCase v = k)) \<and>
   (\<forall>p \<in> set (split blank_line text).
      is_indemnification p \<and> is_termination p \<longrightarrow>
      sublist p (indemnificationText (keyword_buffers text)) \<and>
      sublist p (terminationText (keyword_buffers text))) \<and>
   extractClausesWithKeywords text =
     \<lparr> indemnificationText =
         (if \<exists>p \<in> set (split blank_line text). is_indemnification p
          then trim (indemnificationText (keyword_buffers text)) else no_indemnification),
       terminationText =
         (if \<exists>p \<in> set (split blank_line text). is_termination p
          then trim (terminationText (keyword_buffers text)) else no_termination) \<rparr> \<and>
   (\<forall>p \<in> set (split blank_line text).
      (is_indemnification p \<longrightarrow>
         trim p \<noteq> [] \<and>
         sublist (trim p) (indemnificationText (extractClausesWithKeywords text))) \<and>
      (is_termination p \<longrightarrow>
         trim p \<noteq> [] \<and>
         sublist (trim p) (terminationText (extractClausesWithKeywords text))))"
proof -
  have buffers: "keyword_buffers text =
     \<lparr> indemnificationText =
         concat (map (\<lambda>p. p @ blank_line) (filter is_indemnification (split blank_line text))),
       terminationText =
         concat (map (\<lambda>p. p @ blank_line) (filter is_termination (split blank_line text))) \<rparr>"
    by (simp add: keyword_buffers_def foldl_keyword_step)
  have ind: "is_indemnification p \<longleftrightarrow>
      (\<exists>k \<in> set [''indemnif'', ''liability'', ''data breach'', ''security breach''].
         \<exists>u v w. p = u @ v @ w \<and> toLowerCase v = k)" for p
    by (simp add: is_indemnification_def Let_def includes_lower_iff)
  have ter: "is_termination p \<longleftrightarrow>
      (\<exists>u v w. p = u @ v @ w \<and> toLowerCase v = ''terminat'') \<and>
      (\<exists>k \<in> set [''convenience'', ''at will''].
         \<exists>u v w. p = u @ v @ w \<and> toLowerCase v = k)" for p
    by (simp add: is_termination_def Let_def includes_lower_iff)
  have both: "\<forall>p \<in> set (split blank_line text).
      is_indemnification p \<and> is_termination p \<longrightarrow>
      sublist p (indemnificationText (keyword_buffers text)) \<and>
      sublist p (terminationText (keyword_buffers text))"
    by (simp add: buffers member_in_buffer)
  have returned: "extractClausesWithKeywords text =
     \<lparr> indemnificationText =
         (if \<exists>p \<in> set (split blank_line text). is_indemnification p
          then trim (indemnificationText (keyword_buffers text)) else no_indemnification),
       terminationText =
         (if \<exists>p \<in> set (split blank_line text). is_termination p
          then trim (terminationText (keyword_buffers text)) else no_termination) \<rparr>"
    using extractClausesWithKeywords_fields[of "text"]
    by (cases "extractClausesWithKeywords text") (simp add: buffers)
  have trimmed: "\<forall>p \<in> set (split blank_line text).
      (is_indemnification p \<longrightarrow>
         trim p \<noteq> [] \<and>
         sublist (trim p) (indemnificationText (extractClausesWithKeywords text))) \<and>
      (is_termination p \<longrightarrow>
         trim p \<noteq> [] \<and>
         sublist (trim p) (terminationText (extractClausesWithKeywords text)))"
    using trimmed_paragraph_returned indemnification_not_blank termination_not_blank by blast
  have pieces: "\<forall>p \<in> set (split blank_line text). \<not> sublist blank_line p"
    using split_pieces_free[OF blank_line_nonempty, of _ "text"] by blast
  note round = join_split[OF blank_line_nonempty, of "text"]
  show ?thesis
    by (intro conjI round pieces buffers allI ind ter both returned trimmed)
qed


theorem keyword_scan_buffers_witness:
  "extractClausesWithKeywords
     (''Preamble.'' @ blank_line @ '' Either party may TERMINATE at will; liability is capped. '') =
     \<lparr> indemnificationText = ''Either party may TERMINATE at will; liability is capped.'',
       terminationText = ''Either party may TERMINATE at will; liability is capped.'' \<rparr> \<and>
   sublist '' Either party may TERMINATE at will; liability is capped. ''
     (indemnificationText (keyword_buffers
        (''Preamble.'' @ blank_line @ '' Either party may TERMINATE at will; liability is capped. ''))) \<and>
   sublist '' Either party may TERMINATE at will; liability is capped. ''
     (terminationText (keyword_buffers
        (''Preamble.'' @ blank_line @ '' Either party may TERMINATE at will; liability is capped. ''))) \<and>
   sublist ''Either party may TERMINATE at will; liability is capped.''
     (indemnificationText (extractClausesWithKeywords
        (''Preamble.'' @ blank_line @ '' Either party may TERMINATE at will; liability is capped. ''))) \<and>
   sublist ''Either party may TERMINATE at will; liability is capped.''
     (terminationText (extractClausesWithKeywords
        (''Preamble.'' @ blank_line @ '' Either party may TERMINATE at will; liability is capped. '')))"
proof -
  let ?p = "'' Either party may TERMINATE at will; liability is capped. ''"
  let ?t = "''Preamble.'' @ blank_line @ ?p"
  have a: "?p \<in> set (split blank_line ?t)"
    by code_simp
  have b: "is_indemnification ?p"
    by code_simp
  have c: "is_termination ?p"
    by code_simp
  have d: "trim ?p = ''Either party may TERMINATE at will; liability is capped.''"
    by code_simp
  have e: "\<exists>p \<in> set (split blank_line ?t). is_indemnification p"
    "\<exists>p \<in> set (split blank_line ?t). is_termination p"
    using a b c by blast+
  have f: "trim (indemnificationText (keyword_buffers ?t)) =
      ''Either party may TERMINATE at will; liability is capped.''"
    "trim (terminationText (keyword_buffers ?t)) =
      ''Either party may TERMINATE at will; liability is capped.''"
    by code_simp+
  note k = keyword_scan_buffers[of ?t]
  from k a b c have g: "sublist ?p (indemnificationText (keyword_buffers ?t))"
    "sublist ?p (terminationText (keyword_buffers ?t))" by blast+
  from k a b c have h: "sublist (trim ?p) (indemnificationText (extractClausesWithKeywords ?t))"
    "sublist (trim ?p) (terminationText (extractClausesWithKeywords ?t))" by blast+
  from k have "extractClausesWithKeywords ?t =
     \<lparr> indemnificationText =
         (if \<exists>p \<in> set (split blank_line ?t). is_indemnification p
          then trim (indemnificationText (keyword_buffers ?t)) else no_indemnification),
       terminationText =
         (if \<exists>p \<in> set (split blank_line ?t). is_termination p
          then trim (terminationText (keyword_buffers ?t)) else no_termination) \<rparr>"
    by blast
  then have i: "extractClausesWithKeywords ?t =
     \<lparr> indemnificationText = ''Either party may TERMINATE at will; liability is capped.'',
       terminationText = ''Either party may TERMINATE at will; liability is capped.'' \<rparr>"
    using e by (simp only: if_True f)
  show ?thesis
    using g h[unfolded d] i by (intro conjI)
qed


section \<open>The reassembler\<close>

lemma and_then_simps [simp]:
  "and_then (Done t) k = k t" "and_then (Threw t) k = Threw t"
  by (simp_all add: and_then_def)

lemma reading_simps [simp]:
  "reading (Inr v) t k = k v" "reading (Inl e) t k = Threw t"
  by (simp_all add: reading_def)

lemma response_text_annotated:
  "response_text cv (annotated_response t others) acc =
     Done (acc @ (if t \<noteq> [] then t @ blank_line else []))"
  by (simp add: response_text_def annotated_response_def)

lemma for_of_annotated:
  "for_of (response_text cv) (map (\<lambda>(t, others). annotated_response t others) ps) acc =
     Done (acc @ concat (map (\<lambda>t. t @ blank_line) (filter (\<lambda>t. t \<noteq> []) (map fst ps))))"
  by (induction ps arbitrary: acc) (auto simp: response_text_annotated)

lemma for_of_symbols:
  "for_of (symbol_text cv) (map enc_symbol symbols) acc = Done (acc @ concat symbols)"
  by (induction symbols arbitrary: acc) (auto simp: symbol_text_def enc_symbol_def)

lemma word_text_enc: "word_text cv (enc_word symbols) acc = Done (acc @ word_walk symbols)"
  by (simp add: word_text_def enc_word_def for_of_value_def for_of_symbols word_walk_def)

lemma for_of_words:
  "for_of (word_text cv) (map enc_word ws) acc = Done (acc @ concat (map word_walk ws))"
  by (induction ws arbitrary: acc) (auto simp: word_text_enc)

lemma paragraph_text_enc:
  "paragraph_text cv (enc_paragraph ws) acc = Done (acc @ paragraph_walk ws)"
  by (simp add: paragraph_text_def enc_paragraph_def for_of_value_def for_of_words
      paragraph_walk_def)

lemma for_of_paragraphs:
  "for_of (paragraph_text cv) (map enc_paragraph ps) acc =
     Done (acc @ concat (map paragraph_walk ps))"
  by (induction ps arbitrary: acc) (auto simp: paragraph_text_enc)

lemma block_text_enc: "block_text cv (enc_block ps) acc = Done (acc @ block_walk ps)"
  by (simp add: block_text_def enc_block_def for_of_value_def for_of_paragraphs block_walk_def)

lemma for_of_blocks:
  "for_of (block_text cv) (map enc_block bs) acc = Done (acc @ concat (map block_walk bs))"
  by (induction bs arbitrary: acc) (auto simp: block_text_enc)

lemma page_text_enc: "page_text cv (enc_page bs) acc = Done (acc @ page_walk bs)"
  by (simp add: page_text_def enc_page_def for_of_value_def for_of_blocks page_walk_def)

lemma for_of_pages:
  "for_of (page_text cv) (map enc_page pages) acc = Done (acc @ structural_walk pages)"
  by (induction pages arbitrary: acc) (auto simp: page_text_enc structural_walk_def)

lemma pages_loop_array:
  "i \<le> length xs \<Longrightarrow>
   pages_loop cv (JArr xs) [i ..< length xs] acc = for_of (page_text cv) (drop i xs) acc"
proof (induction "length xs - i" arbitrary: i acc)
  case 0
  then show ?case by simp
next
  case (Suc n)
  then have lt: "i < length xs" by simp
  have ih: "pages_loop cv (JArr xs) [Suc i ..< length xs] t =
      for_of (page_text cv) (drop (Suc i) xs) t" for t
    using Suc(1)[of "Suc i" t] Suc(2) lt by simp
  then have ih': "pages_loop cv (JArr xs) [Suc i ..< length xs] =
      for_of (page_text cv) (drop (Suc i) xs)"
    by (intro ext)
  have d: "drop i xs = xs ! i # drop (Suc i) xs" using lt by (simp add: Cons_nth_drop_Suc)
  show ?case
    using lt by (simp add: upt_conv_Cons d ih')
qed

lemma ocr_text_annotated:
  assumes "map_of kvs ''responses'' =
      Some (JArr (map (\<lambda>(t, others). annotated_response t others) ps))"
    and "\<forall>(t, others) \<in> set ps. t \<noteq> []"
  shows "extractTextFromOcrJson cv (JObj kvs) = trim (join blank_line (map fst ps))"
proof -
  have f: "filter (\<lambda>t. t \<noteq> []) (map fst ps) = map fst ps"
    using assms(2) by (auto simp: filter_id_conv)
  have direct: "direct_path cv (JObj kvs) [] =
      Done (concat (map (\<lambda>t. t @ blank_line) (map fst ps)))"
    using assms(1) by (simp add: direct_path_def for_of_annotated f)
  show ?thesis
  proof (cases ps)
    case Nil
    with assms(1) direct show ?thesis
      by (simp add: extractTextFromOcrJson_def ocr_flow_def detailed_structure_def)
  next
    case (Cons p ps')
    then have "concat (map (\<lambda>t. t @ blank_line) (map fst ps)) \<noteq> []"
      by (simp add: blank_line_def)
    with direct show ?thesis
      by (simp add: extractTextFromOcrJson_def ocr_flow_def detailed_structure_def
          trim_concat_join del: map_map)
  qed
qed

lemma ocr_text_structured:
  "extractTextFromOcrJson cv (JObj [(''responses'', JArr [structured_response ps])]) =
     trim (structural_walk ps)"
  using pages_loop_array[of 0 "map enc_page ps" cv "[]"]
  by (simp add: extractTextFromOcrJson_def ocr_flow_def detailed_structure_def
      direct_path_def structured_response_def response_text_def for_of_pages)

lemma response_text_appends: "\<exists>s. text_of (response_text cv r t) = t @ s"
  by (cases r; cases "get r ''fullTextAnnotation''")
     (auto simp: response_text_def reading_def split: sum.splits)

lemma for_of_appends:
  assumes "\<And>x t. \<exists>s. text_of (body x t) = t @ s"
  shows "\<exists>s. text_of (for_of body xs t) = t @ s"
proof (induction xs arbitrary: t)
  case Nil
  then show ?case by simp
next
  case (Cons x xs)
  obtain s where s: "text_of (body x t) = t @ s" using assms by blast
  show ?case
  proof (cases "body x t")
    case (Done t')
    with s have "t' = t @ s" by simp
    moreover obtain s' where "text_of (for_of body xs t') = t' @ s'" using Cons by blast
    ultimately show ?thesis using Done by simp
  next
    case (Threw t')
    with s show ?thesis by simp
  qed
qed

lemma shards_loop_no_files: "shards_loop env [] [] w = (Inr [], w)"
  by (simp add: result_def)

text \<open>
  C4. On a shard whose \<open>responses\<close> array holds responses that each carry a non-empty
  full-text string, the reassembler returns those strings, in order, with a blank line
  between two of them, trimmed (whatever else the annotations hold). With no shard at all
  the assembled text is the empty string. On the one shard whose full text is
  \<open>Hello World\<close> the result is \<open>Hello World\<close>.
\<close>

theorem direct_path_concatenates:
  "(map_of kvs ''responses'' =
      Some (JArr (map (\<lambda>(t, others). annotated_response t others) ps)) \<longrightarrow>
    (\<forall>(t, others) \<in> set ps. t \<noteq> []) \<longrightarrow>
    extractTextFromOcrJson cv (JObj kvs) = trim (join blank_line (map fst ps))) \<and>
   shards_loop env [] [] w = (Inr [], w) \<and>
   extractTextFromOcrJson cv
     (JObj [(''responses'', JArr [annotated_response ''Hello World'' []])]) = ''Hello World''"
proof -
  have "extractTextFromOcrJson cv
     (JObj [(''responses'', JArr [annotated_response ''Hello World'' []])]) = ''Hello World''"
    using ocr_text_annotated
      [of "[(''responses'', JArr [annotated_response ''Hello World'' []])]"
        "[(''Hello World'', [])]" cv]
    by (simp add: trim_def is_space_def)
  then show ?thesis
    using ocr_text_annotated[of kvs ps cv] shards_loop_no_files[of env w] by blast
qed

theorem direct_path_concatenates_witness:
  "\<forall>cv. extractTextFromOcrJson cv
     (JObj [(''responses'',
        JArr [annotated_response ''Page one'' [(''pages'', JArr [])],
              annotated_response ''Page two'' []])]) =
     ''Page one'' @ blank_line @ ''Page two''"
proof
  fix cv
  have "extractTextFromOcrJson cv
     (JObj [(''responses'',
        JArr [annotated_response ''Page one'' [(''pages'', JArr [])],
              annotated_response ''Page two'' []])]) =
     trim (join blank_line (map fst [(''Page one'', [(''pages'', JArr [])]), (''Page two'', [])]))"
    using direct_path_concatenates
      [of "[(''responses'',
        JArr [annotated_response ''Page one'' [(''pages'', JArr [])],
              annotated_response ''Page two'' []])]"
        "[(''Page one'', [(''pages'', JArr [])]), (''Page two'', [])]" cv]
    by simp
  then show "extractTextFromOcrJson cv
     (JObj [(''responses'',
        JArr [annotated_response ''Page one'' [(''pages'', JArr [])],
              annotated_response ''Page two'' []])]) =
     ''Page one'' @ blank_line @ ''Page two''"
    by (simp add: trim_def is_space_def blank_line_def newline_def)
qed

text \<open>
  C6. On a shard whose first response has no flattened text but the page structure, the
  reassembler returns the structural walk, trimmed: the text of the symbols of each word,
  a space after each word, a newline after each paragraph, a blank line after each page.
  One page of one block of one paragraph of the words \<open>word1\<close> and \<open>word2\<close> gives
  \<open>word1 word2\<close>.
\<close>

theorem structural_fallback_walk:
  "extractTextFromOcrJson cv (JObj [(''responses'', JArr [structured_response pages])]) =
     trim (structural_walk pages) \<and>
   structural_walk [[[[[''w'', ''o'', ''r'', ''d'', ''1''], [''word2'']]]]] =
     ''word1 word2 '' @ [newline] @ blank_line \<and>
   extractTextFromOcrJson cv
     (JObj [(''responses'',
        JArr [structured_response [[[[[''w'', ''o'', ''r'', ''d'', ''1''], [''word2'']]]]]])]) =
     ''word1 word2''"
proof -
  have walk: "extractTextFromOcrJson cv
      (JObj [(''responses'', JArr [structured_response ps])]) = trim (structural_walk ps)" for ps
    by (rule ocr_text_structured)
  have example: "structural_walk [[[[[''w'', ''o'', ''r'', ''d'', ''1''], [''word2'']]]]] =
     ''word1 word2 '' @ [newline] @ blank_line"
    by (simp add: structural_walk_def page_walk_def block_walk_def paragraph_walk_def
        word_walk_def)
  have "trim (''word1 word2 '' @ [newline] @ blank_line) = ''word1 word2''"
    by (simp add: trim_def is_space_def blank_line_def newline_def)
  with walk example show ?thesis by simp
qed

text \<open>
  C10. When the direct path over the responses \<open>r # rs\<close> of a shard has gathered no
  text, the result is that of the shard whose only response is \<open>r\<close>: the structural walk
  reads the first response alone, and the pages, blocks, paragraphs, words and symbols of
  the later responses add nothing. (When the direct path threw on a later response, the
  walk does not run and the result is empty.)
\<close>

theorem fallback_reads_first_response:
  assumes "map_of kvs ''responses'' = Some (JArr (r # rs))"
    and "text_of (direct_path cv (JObj kvs) []) = []"
  shows "extractTextFromOcrJson cv (JObj kvs) =
     (if threw (direct_path cv (JObj kvs) []) then []
      else extractTextFromOcrJson cv (JObj [(''responses'', JArr [r])]))"
proof -
  have direct: "direct_path cv (JObj kvs) [] = for_of (response_text cv) (r # rs) []"
    using assms(1) by (simp add: direct_path_def)
  show ?thesis
  proof (cases "direct_path cv (JObj kvs) []")
    case (Threw t)
    with assms(2) show ?thesis
      by (simp add: extractTextFromOcrJson_def ocr_flow_def trim_Nil)
  next
    case (Done t)
    with assms(2) have t: "t = []" by simp
    obtain t1 where first: "response_text cv r [] = Done t1"
      using Done direct by (cases "response_text cv r []") auto
    then have rest: "for_of (response_text cv) rs t1 = Done []"
      using Done direct t by simp
    obtain s where "text_of (for_of (response_text cv) rs t1) = t1 @ s"
      using for_of_appends[of "response_text cv" rs t1] response_text_appends by blast
    with rest have t1: "t1 = []" by simp
    have one: "direct_path cv (JObj [(''responses'', JArr [r])]) [] = Done []"
      using first t1 by (simp add: direct_path_def)
    have same: "detailed_structure cv (JObj kvs) [] =
        detailed_structure cv (JObj [(''responses'', JArr [r])]) []"
      using assms(1) by (simp add: detailed_structure_def)
    show ?thesis
      using Done t one same by (simp add: extractTextFromOcrJson_def ocr_flow_def)
  qed
qed

theorem fallback_reads_first_response_witness:
  "\<forall>cv. extractTextFromOcrJson cv
     (JObj [(''responses'',
        JArr [structured_response [[[[[''first'']]]]],
              structured_response [[[[[''second'']]]]]])]) = ''first''"
proof
  fix cv
  let ?r = "structured_response [[[[[''first'']]]]]"
  let ?kvs = "[(''responses'', JArr [?r, structured_response [[[[[''second'']]]]]])]"
  have direct: "direct_path cv (JObj ?kvs) [] = Done []"
    by (simp add: direct_path_def response_text_def structured_response_def)
  have "extractTextFromOcrJson cv (JObj ?kvs) =
      extractTextFromOcrJson cv (JObj [(''responses'', JArr [?r])])"
    using fallback_reads_first_response[of ?kvs ?r "[structured_response [[[[[''second'']]]]]]" cv]
      direct by simp
  also have "\<dots> = trim (structural_walk [[[[[''first'']]]]])"
    by (rule ocr_text_structured)
  also have "\<dots> = ''first''"
    by (simp add: structural_walk_def page_walk_def block_walk_def paragraph_walk_def
        word_walk_def trim_def is_space_def blank_line_def newline_def)
  finally show "extractTextFromOcrJson cv (JObj ?kvs) = ''first''" .
qed

section \<open>Clause extraction\<close>

lemma then_do_evaluate:
  "then_do (evaluate r) k w = (case r of Inl e \<Rightarrow> (Inl e, w) | Inr v \<Rightarrow> k v w)"
  by (simp add: then_do_def evaluate_def split: sum.splits)

lemma then_do_result [simp]: "then_do (result v) k w = k v w"
  by (simp add: then_do_def result_def)

lemma then_do_throw [simp]: "then_do (throw e) k w = (Inl e, w)"
  by (simp add: then_do_def throw_def)

lemma then_do_console_error [simp]:
  "then_do (console_error ev) k w = k () (w\<lparr>errors := errors w @ [ev]\<rparr>)"
  by (simp add: then_do_def console_error_def)

lemma keyword_fallback_eq:
  "keyword_fallback ev text w =
     (Inr (as_values (extractClausesWithKeywords text)), w\<lparr>errors := errors w @ [ev]\<rparr>)"
  by (simp add: keyword_fallback_def result_def)

lemma read_clauses_eq:
  "read_clauses env content w =
     (case parse_response env content of
        Inl e \<Rightarrow> (Inl e, w)
      | Inr parsed \<Rightarrow>
          (case get parsed ''indemnificationText'' of
             Inl e \<Rightarrow> (Inl e, w)
           | Inr i \<Rightarrow>
               (case get parsed ''terminationText'' of
                  Inl e \<Rightarrow> (Inl e, w)
                | Inr t \<Rightarrow>
                    (Inr \<lparr> indemnificationText = or_value i (JStr no_indemnification),
                           terminationText = or_value t (JStr no_termination) \<rparr>, w))))"
  by (simp add: read_clauses_def then_do_evaluate result_def split: sum.splits)

lemma extractClausesWithAI_eq:
  "extractClausesWithAI env text w =
     (case chat_completion env (prompt text) of
        Inl e \<Rightarrow> keyword_fallback AiExtractionError text w
      | Inr content \<Rightarrow>
          if \<not> truthy content then keyword_fallback AiExtractionError text w
          else (case read_clauses env content w of
                  (Inl e, w') \<Rightarrow> keyword_fallback AiResponseUnparsed text w'
                | (Inr c, w') \<Rightarrow> (Inr c, w')))"
  by (simp add: extractClausesWithAI_def try_catch_def then_do_evaluate throw_def
      keyword_fallback_eq split: sum.splits prod.splits)

lemma snd_read_clauses: "snd (read_clauses env content w) = w"
  by (simp add: read_clauses_eq split: sum.splits)

lemma json_match_shape:
  assumes "json_match s = Some m"
  shows "\<exists>u v. s = u @ m @ v \<and> CHR ''{'' \<notin> set u \<and> CHR ''}'' \<notin> set v \<and>
           hd m = CHR ''{'' \<and> last m = CHR ''}''"
proof -
  let ?fb = "dropWhile (\<lambda>c. c \<noteq> CHR ''{'') s"
  let ?u = "takeWhile (\<lambda>c. c \<noteq> CHR ''{'') s"
  let ?v = "rev (takeWhile (\<lambda>c. c \<noteq> CHR ''}'') (rev ?fb))"
  from assms have close: "CHR ''}'' \<in> set ?fb"
    and m: "m = rev (dropWhile (\<lambda>c. c \<noteq> CHR ''}'') (rev ?fb))"
    by (auto simp: json_match_def Let_def split: if_splits)
  have fb: "?fb = m @ ?v"
    unfolding m by (metis rev_append rev_rev_ident takeWhile_dropWhile_id)
  have s: "s = ?u @ m @ ?v" using fb takeWhile_dropWhile_id[of "\<lambda>c. c \<noteq> CHR ''{''" s] by simp
  have u: "CHR ''{'' \<notin> set ?u" by (auto dest: set_takeWhileD)
  have v: "CHR ''}'' \<notin> set ?v" by (auto dest: set_takeWhileD)
  have ne: "dropWhile (\<lambda>c. c \<noteq> CHR ''}'') (rev ?fb) \<noteq> []"
    using close by (simp add: dropWhile_eq_Nil_conv)
  then have "hd (dropWhile (\<lambda>c. c \<noteq> CHR ''}'') (rev ?fb)) = CHR ''}''"
    using hd_dropWhile[of "\<lambda>c. c \<noteq> CHR ''}''" "rev ?fb"] by simp
  then have last: "last m = CHR ''}''" using m ne by (simp add: last_rev)
  have mne: "m \<noteq> []" using m ne by simp
  have "?fb \<noteq> []"
  proof
    assume "?fb = []"
    with close show False by simp
  qed
  then have "hd ?fb = CHR ''{''"
    using hd_dropWhile[of "\<lambda>c. c \<noteq> CHR ''{''" s] by simp
  then have hd: "hd m = CHR ''{''" using fb mne by (metis hd_append2)
  from s u v hd last show ?thesis by blast
qed

lemma keywords_nonempty:
  "indemnificationText (extractClausesWithKeywords text) \<noteq> [] \<and>
   terminationText (extractClausesWithKeywords text) \<noteq> []"
  by (simp add: extractClausesWithKeywords_def Let_def or_default_def
      no_indemnification_def no_termination_def)

lemma extractClausesWithAI_result:
  "\<exists>c es. extractClausesWithAI env text w = (Inr c, w\<lparr>errors := errors w @ es\<rparr>) \<and>
      truthy (indemnificationText c) \<and> truthy (terminationText c)"
proof -
  have kw: "\<exists>c es. keyword_fallback ev text w = (Inr c, w\<lparr>errors := errors w @ es\<rparr>) \<and>
      truthy (indemnificationText c) \<and> truthy (terminationText c)" for ev
    using keywords_nonempty[of "text"]
    by (intro exI[of _ "as_values (extractClausesWithKeywords text)"] exI[of _ "[ev]"])
       (simp add: keyword_fallback_eq as_values_def)
  have sentinels: "truthy (or_value v (JStr no_indemnification))"
    "truthy (or_value v (JStr no_termination))" for v
    by (simp_all add: or_value_def no_indemnification_def no_termination_def)
  have same: "w = w\<lparr>errors := errors w @ []\<rparr>" by simp
  show ?thesis
  proof (cases "chat_completion env (prompt text)")
    case (Inl e)
    with kw show ?thesis by (simp add: extractClausesWithAI_eq)
  next
    case (Inr content)
    show ?thesis
    proof (cases "truthy content")
      case False
      with Inr kw show ?thesis by (simp add: extractClausesWithAI_eq)
    next
      case True
      show ?thesis
      proof (cases "fst (read_clauses env content w)")
        case (Inl e)
        then have "read_clauses env content w = (Inl e, w)"
          using snd_read_clauses[of env content w] by (cases "read_clauses env content w") simp
        with Inr True kw show ?thesis by (simp add: extractClausesWithAI_eq)
      next
        case c: (Inr c)
        then have r: "read_clauses env content w = (Inr c, w)"
          using snd_read_clauses[of env content w] by (cases "read_clauses env content w") simp
        then have "truthy (indemnificationText c) \<and> truthy (terminationText c)"
          using sentinels by (auto simp: read_clauses_eq split: sum.splits)
        moreover have "extractClausesWithAI env text w = (Inr c, w)"
          using Inr True r by (simp add: extractClausesWithAI_eq)
        ultimately show ?thesis using same by metis
      qed
    qed
  qed
qed

text \<open>
  C1. \<open>extractClausesWithAI\<close> returns a pair for every text, every reply of the model
  and every behaviour of \<open>JSON.parse\<close>: it never throws. When the call of the model
  fails, when the reply is empty, when the substring from the first opening brace to the
  last closing brace does not parse, or when there is no such substring and the whole
  reply does not parse, the pair is the one \<open>extractClausesWithKeywords\<close> computes from
  the same text, and nothing of the reply is in it.
\<close>

theorem extractClausesWithAI_never_raises:
  "(\<exists>c. fst (extractClausesWithAI env text w) = Inr c) \<and>
   ((\<exists>e. chat_completion env (prompt text) = Inl e) \<or>
    (\<exists>content. chat_completion env (prompt text) = Inr content \<and> \<not> truthy content) \<or>
    (\<exists>s m e. chat_completion env (prompt text) = Inr (JStr s) \<and>
       json_match s = Some m \<and> JSON_parse env m = Inl e) \<or>
    (\<exists>s e. chat_completion env (prompt text) = Inr (JStr s) \<and>
       json_match s = None \<and> JSON_parse env s = Inl e)
    \<longrightarrow> fst (extractClausesWithAI env text w) =
          Inr (as_values (extractClausesWithKeywords text)))"
proof -
  have total: "\<exists>c. fst (extractClausesWithAI env text w) = Inr c"
    by (auto simp: extractClausesWithAI_eq keyword_fallback_eq split: sum.splits prod.splits)
  have unparsed: "fst (extractClausesWithAI env text w) =
      Inr (as_values (extractClausesWithKeywords text))"
    if "chat_completion env (prompt text) = Inr content" "parse_response env content = Inl e"
    for content e
    using that
    by (auto simp: extractClausesWithAI_eq keyword_fallback_eq read_clauses_eq split: sum.splits prod.splits)
  have failed: "fst (extractClausesWithAI env text w) =
      Inr (as_values (extractClausesWithKeywords text))"
    if "chat_completion env (prompt text) = Inl e" for e
    using that by (simp add: extractClausesWithAI_eq keyword_fallback_eq)
  have empty: "fst (extractClausesWithAI env text w) =
      Inr (as_values (extractClausesWithKeywords text))"
    if "chat_completion env (prompt text) = Inr content" "\<not> truthy content" for content
    using that by (simp add: extractClausesWithAI_eq keyword_fallback_eq)
  have p1: "parse_response env (JStr s) = Inl e" if "json_match s = Some m" "JSON_parse env m = Inl e" for s m e
    using that by (simp add: parse_response_def)
  have p2: "parse_response env (JStr s) = Inl e" if "json_match s = None" "JSON_parse env s = Inl e" for s e
    using that by (simp add: parse_response_def)
  show ?thesis
    using total unparsed failed empty p1 p2 by blast
qed


theorem extractClausesWithAI_never_raises_witness:
  "fst (extractClausesWithAI
          (failing_environment\<lparr>chat_completion := (\<lambda>p. Inr (JStr ''I found no clause.''))\<rparr>)
          ''Either party may terminate this agreement at will.'' start) =
     Inr (as_values (extractClausesWithKeywords
          ''Either party may terminate this agreement at will.''))"
proof -
  let ?env = "failing_environment\<lparr>chat_completion := (\<lambda>p. Inr (JStr ''I found no clause.''))\<rparr>"
  have a: "chat_completion ?env (prompt ''Either party may terminate this agreement at will.'') =
      Inr (JStr ''I found no clause.'')"
    by simp
  have b: "json_match ''I found no clause.'' = None" by code_simp
  have c: "JSON_parse ?env ''I found no clause.'' = Inl SyntaxError"
    by (simp add: failing_environment_def)
  from extractClausesWithAI_never_raises
    [of ?env "''Either party may terminate this agreement at will.''" start] a b c
  show ?thesis by blast
qed

text \<open>
  C3, at the input where it fails. The model answers
  \<^verbatim>\<open>{"indemnificationText": 42, "terminationText": "x"}\<close>: the reply parses, the number
  \<open>42\<close> is truthy, and the first field of the result is that number, not a string. (The
  keyword extractor does return two non-empty strings for every text:
  \<open>keywords_nonempty\<close>; and both fields of every result are truthy:
  \<open>extractClausesWithAI_result\<close>.)
\<close>

theorem extractClausesWithAI_number_field:
  "fst (extractClausesWithAI numeric_environment text w) =
     Inr \<lparr> indemnificationText = JNum (Finite 42), terminationText = JStr ''x'' \<rparr>"
proof -
  have m: "json_match numeric_reply_text = Some numeric_reply_text"
    unfolding numeric_reply_text_def by code_simp
  have ne: "numeric_reply_text \<noteq> []"
    by (simp add: numeric_reply_text_def)
  show ?thesis
    by (simp add: extractClausesWithAI_eq read_clauses_eq parse_response_def m ne
        numeric_environment_def numeric_reply_def or_value_def)
qed

section \<open>The record-update endpoint\<close>

lemma and_so_simps [simp]:
  "and_so (Inl e) k = Inl e" "and_so (Inr v) k = k v"
  by (simp_all add: and_so_def)

lemma script_simps [simp]:
  "script (Inl e) = Inl (ScriptError e)" "script (Inr v) = Inr v"
  by (simp_all add: script_def)

text \<open>The update data: the status, and the truthy clauses of the payload.\<close>

lemma updateData_names:
  "fst ` set (updateData_of status i t) =
     {''status''} \<union> (if truthy i then {''indemnificationText''} else {}) \<union>
     (if truthy t then {''terminationText''} else {})"
  by (simp add: updateData_of_def)

lemma updateData_values:
  "(name, v) \<in> set (updateData_of status i t) \<longleftrightarrow>
     name = ''status'' \<and> v = status \<or>
     name = ''indemnificationText'' \<and> v = i \<and> truthy i \<or>
     name = ''terminationText'' \<and> v = t \<and> truthy t"
  by (auto simp: updateData_of_def)

text \<open>What the handler answers, by the way its block ends.\<close>

lemma put_steps_cases:
  assumes "put_steps cv update db contractId request_json = Inr (resp, db')"
  shows "(\<exists>data status. request_json = Inr data \<and> get data ''status'' = Inr status \<and>
      \<not> truthy status \<and> status_code resp = 400 \<and> db' = db) \<or>
   (\<exists>data status i t row'.
      request_json = Inr data \<and> get data ''status'' = Inr status \<and> truthy status \<and>
      get data ''indemnificationText'' = Inr i \<and> get data ''terminationText'' = Inr t \<and>
      update db contractId (updateData_of status i t) = Inr (row', db') \<and>
      resp = \<lparr>status_code = 200, response_json = ContractJson row'\<rparr>)"
proof (cases request_json)
  case (Inl e)
  with assms show ?thesis by (simp add: put_steps_def)
next
  case data: (Inr data)
  show ?thesis
  proof (cases "get data ''status''")
    case (Inl e)
    with assms data show ?thesis by (simp add: put_steps_def)
  next
    case status: (Inr status)
    show ?thesis
    proof (cases "truthy status")
      case False
      with assms data status show ?thesis by (auto simp: put_steps_def)
    next
      case True
      show ?thesis
      proof (cases "to_string cv status")
        case (Inl e)
        with assms data status True show ?thesis by (simp add: put_steps_def)
      next
        case logged: (Inr logged)
        show ?thesis
        proof (cases "get data ''indemnificationText''")
          case (Inl e)
          with assms data status True logged show ?thesis by (simp add: put_steps_def)
        next
          case i: (Inr i)
          show ?thesis
          proof (cases "get data ''terminationText''")
            case (Inl e)
            with assms data status True logged i show ?thesis by (simp add: put_steps_def)
          next
            case t: (Inr t)
            show ?thesis
            proof (cases "update db contractId (updateData_of status i t)")
              case (Inl e)
              with assms data status True logged i t show ?thesis by (simp add: put_steps_def)
            next
              case (Inr written)
              with assms data status True logged i t show ?thesis
                by (cases written) (auto simp: put_steps_def)
            qed
          qed
        qed
      qed
    qed
  qed
qed

lemma put_failure:
  "put_steps cv update db contractId request_json = Inl e \<Longrightarrow>
   PUT cv update db contractId request_json = (resp, db') \<Longrightarrow>
   db' = db \<and> status_code resp \<noteq> 200 \<and> status_code resp \<noteq> 400"
  by (auto simp: PUT_def split: if_splits)

lemma put_status_required:
  "request_json = Inr data \<Longrightarrow> get data ''status'' = Inr status \<Longrightarrow> \<not> truthy status \<Longrightarrow>
   PUT cv update db contractId request_json =
     (\<lparr>status_code = 400, response_json = ErrorMessage ''Status field is required''\<rparr>, db)"
  by (simp add: PUT_def put_steps_def)

text \<open>The store of the schema writes the columns it is given.\<close>

lemma write_field_other:
  "fst kv \<noteq> ''status'' \<Longrightarrow> stored_status (write_field row kv) = stored_status row"
  "fst kv \<noteq> ''indemnificationText'' \<Longrightarrow>
     stored_indemnificationText (write_field row kv) = stored_indemnificationText row"
  "fst kv \<noteq> ''terminationText'' \<Longrightarrow>
     stored_terminationText (write_field row kv) = stored_terminationText row"
  "fileName (write_field row kv) = fileName row"
  "uploadedAt (write_field row kv) = uploadedAt row"
  "progress (write_field row kv) = progress row"
  by (simp_all add: write_field_def split: option.splits)

lemma foldl_write_field_other:
  "''status'' \<notin> fst ` set kvs \<Longrightarrow> stored_status (foldl write_field row kvs) = stored_status row"
  "''indemnificationText'' \<notin> fst ` set kvs \<Longrightarrow>
     stored_indemnificationText (foldl write_field row kvs) = stored_indemnificationText row"
  "''terminationText'' \<notin> fst ` set kvs \<Longrightarrow>
     stored_terminationText (foldl write_field row kvs) = stored_terminationText row"
  "fileName (foldl write_field row kvs) = fileName row"
  "uploadedAt (foldl write_field row kvs) = uploadedAt row"
  "progress (foldl write_field row kvs) = progress row"
  by (induction kvs arbitrary: row) (auto simp: write_field_other)

lemma prisma_contract_update_writes_given_columns:
  "writes_given_columns prisma_contract_update"
  unfolding writes_given_columns_def
  by (auto simp: prisma_contract_update_def Let_def foldl_write_field_other
      split: if_splits option.splits)

text \<open>
  C9, as the handler has it, for every store. An answer of 200 is the answer to one call
  of the update, with the status of the payload, which is truthy, and with each clause
  of the payload that is truthy, whatever its type; the body of the answer is the row
  that the call returned. Any other answer leaves the table as it was. A payload whose
  status can be read and is missing or falsy is answered with 400 and the table is as it
  was, whatever the store would have done. The update data name the status, a clause
  that is truthy in the payload, and nothing else; their values are those of the payload.
  For a store that writes only the columns it is given, in the row of the id: no other
  row changes, no row is created, the file name, the upload time and the progress of the
  row stay, and a stored clause changes only in an answer of 200 to a payload that holds
  a truthy value for it, so a clause that is empty or otherwise falsy in the payload
  leaves the stored clause as it was.
\<close>

theorem put_writes_only_truthy_clauses:
  assumes "PUT cv update db contractId request_json = (resp, db')"
  shows "(status_code resp = 200 \<longrightarrow>
       (\<exists>data status i t row'.
          request_json = Inr data \<and> get data ''status'' = Inr status \<and> truthy status \<and>
          get data ''indemnificationText'' = Inr i \<and> get data ''terminationText'' = Inr t \<and>
          update db contractId (updateData_of status i t) = Inr (row', db') \<and>
          response_json resp = ContractJson row')) \<and>
    (status_code resp \<noteq> 200 \<longrightarrow> db' = db) \<and>
    (\<forall>data status. request_json = Inr data \<and> get data ''status'' = Inr status \<and>
       \<not> truthy status \<longrightarrow>
       status_code resp = 400 \<and> db' = db \<and>
       (\<forall>other. PUT cv other db contractId request_json =
          (\<lparr>status_code = 400, response_json = ErrorMessage ''Status field is required''\<rparr>, db))) \<and>
    (\<forall>status i t.
       fst ` set (updateData_of status i t) \<subseteq>
         {''status'', ''indemnificationText'', ''terminationText''} \<and>
       (''indemnificationText'' \<in> fst ` set (updateData_of status i t) \<longleftrightarrow> truthy i) \<and>
       (''terminationText'' \<in> fst ` set (updateData_of status i t) \<longleftrightarrow> truthy t) \<and>
       (\<forall>name v. (name, v) \<in> set (updateData_of status i t) \<longleftrightarrow>
          name = ''status'' \<and> v = status \<or>
          name = ''indemnificationText'' \<and> v = i \<and> truthy i \<or>
          name = ''terminationText'' \<and> v = t \<and> truthy t)) \<and>
    (writes_given_columns update \<longrightarrow>
       (\<forall>other. other \<noteq> contractId \<longrightarrow> db' other = db other) \<and>
       (db contractId = None \<longrightarrow> db' = db) \<and>
       (\<forall>row. db contractId = Some row \<longrightarrow>
          (\<exists>row'. db' contractId = Some row' \<and>
             fileName row' = fileName row \<and> uploadedAt row' = uploadedAt row \<and>
             progress row' = progress row \<and>
             (stored_indemnificationText row' \<noteq> stored_indemnificationText row \<longrightarrow>
                status_code resp = 200 \<and>
                (\<exists>data i. request_json = Inr data \<and>
                   get data ''indemnificationText'' = Inr i \<and> truthy i)) \<and>
             (stored_terminationText row' \<noteq> stored_terminationText row \<longrightarrow>
                status_code resp = 200 \<and>
                (\<exists>data t. request_json = Inr data \<and>
                   get data ''terminationText'' = Inr t \<and> truthy t)))))"
proof -
  have names: "\<forall>status i t.
       fst ` set (updateData_of status i t) \<subseteq>
         {''status'', ''indemnificationText'', ''terminationText''} \<and>
       (''indemnificationText'' \<in> fst ` set (updateData_of status i t) \<longleftrightarrow> truthy i) \<and>
       (''terminationText'' \<in> fst ` set (updateData_of status i t) \<longleftrightarrow> truthy t) \<and>
       (\<forall>name v. (name, v) \<in> set (updateData_of status i t) \<longleftrightarrow>
          name = ''status'' \<and> v = status \<or>
          name = ''indemnificationText'' \<and> v = i \<and> truthy i \<or>
          name = ''terminationText'' \<and> v = t \<and> truthy t)"
    by (simp add: updateData_names updateData_values)
  have required: "\<forall>data status. request_json = Inr data \<and> get data ''status'' = Inr status \<and>
       \<not> truthy status \<longrightarrow>
       status_code resp = 400 \<and> db' = db \<and>
       (\<forall>other. PUT cv other db contractId request_json =
          (\<lparr>status_code = 400, response_json = ErrorMessage ''Status field is required''\<rparr>, db))"
  proof (intro allI impI, elim conjE)
    fix data status
    assume a: "request_json = Inr data" "get data ''status'' = Inr status" "\<not> truthy status"
    from put_status_required[OF a, of cv update db contractId] assms
    have "status_code resp = 400 \<and> db' = db" by auto
    with put_status_required[OF a]
    show "status_code resp = 400 \<and> db' = db \<and>
       (\<forall>other. PUT cv other db contractId request_json =
          (\<lparr>status_code = 400, response_json = ErrorMessage ''Status field is required''\<rparr>, db))"
      by blast
  qed
  have unchanged: "(\<forall>other. other \<noteq> contractId \<longrightarrow> db' other = db other) \<and>
       (db contractId = None \<longrightarrow> db' = db) \<and>
       (\<forall>row. db contractId = Some row \<longrightarrow>
          (\<exists>row'. db' contractId = Some row' \<and>
             fileName row' = fileName row \<and> uploadedAt row' = uploadedAt row \<and>
             progress row' = progress row \<and>
             (stored_indemnificationText row' \<noteq> stored_indemnificationText row \<longrightarrow>
                status_code resp = 200 \<and>
                (\<exists>data i. request_json = Inr data \<and>
                   get data ''indemnificationText'' = Inr i \<and> truthy i)) \<and>
             (stored_terminationText row' \<noteq> stored_terminationText row \<longrightarrow>
                status_code resp = 200 \<and>
                (\<exists>data t. request_json = Inr data \<and>
                   get data ''terminationText'' = Inr t \<and> truthy t))))"
    if "db' = db"
    using that by simp
  show ?thesis
  proof (cases "put_steps cv update db contractId request_json")
    case (Inl e)
    from put_failure[OF Inl assms] have same: "db' = db" and code: "status_code resp \<noteq> 200"
      by simp_all
    from code same unchanged[OF same] names required show ?thesis by blast
  next
    case (Inr answer)
    then have steps: "put_steps cv update db contractId request_json = Inr (resp, db')"
      using assms by (simp add: PUT_def)
    from put_steps_cases[OF steps] show ?thesis
    proof
      assume "\<exists>data status. request_json = Inr data \<and> get data ''status'' = Inr status \<and>
        \<not> truthy status \<and> status_code resp = 400 \<and> db' = db"
      then have same: "db' = db" and code: "status_code resp \<noteq> 200" by auto
      from code same unchanged[OF same] names required show ?thesis by blast
    next
      assume "\<exists>data status i t row'.
        request_json = Inr data \<and> get data ''status'' = Inr status \<and> truthy status \<and>
        get data ''indemnificationText'' = Inr i \<and> get data ''terminationText'' = Inr t \<and>
        update db contractId (updateData_of status i t) = Inr (row', db') \<and>
        resp = \<lparr>status_code = 200, response_json = ContractJson row'\<rparr>"
      then obtain data status i t row' where d: "request_json = Inr data"
        and st: "get data ''status'' = Inr status" "truthy status"
        and i: "get data ''indemnificationText'' = Inr i"
        and t: "get data ''terminationText'' = Inr t"
        and u: "update db contractId (updateData_of status i t) = Inr (row', db')"
        and r: "resp = \<lparr>status_code = 200, response_json = ContractJson row'\<rparr>"
        by blast
      have ok: "status_code resp = 200 \<longrightarrow>
         (\<exists>data status i t row'.
            request_json = Inr data \<and> get data ''status'' = Inr status \<and> truthy status \<and>
            get data ''indemnificationText'' = Inr i \<and> get data ''terminationText'' = Inr t \<and>
            update db contractId (updateData_of status i t) = Inr (row', db') \<and>
            response_json resp = ContractJson row')"
        using d st i t u r by auto
      have other: "status_code resp \<noteq> 200 \<longrightarrow> db' = db"
        using r by simp
      have frame: "(\<forall>other. other \<noteq> contractId \<longrightarrow> db' other = db other) \<and>
         (db contractId = None \<longrightarrow> db' = db) \<and>
         (\<forall>row. db contractId = Some row \<longrightarrow>
            (\<exists>row'. db' contractId = Some row' \<and>
               fileName row' = fileName row \<and> uploadedAt row' = uploadedAt row \<and>
               progress row' = progress row \<and>
               (stored_indemnificationText row' \<noteq> stored_indemnificationText row \<longrightarrow>
                  status_code resp = 200 \<and>
                  (\<exists>data i. request_json = Inr data \<and>
                     get data ''indemnificationText'' = Inr i \<and> truthy i)) \<and>
               (stored_terminationText row' \<noteq> stored_terminationText row \<longrightarrow>
                  status_code resp = 200 \<and>
                  (\<exists>data t. request_json = Inr data \<and>
                     get data ''terminationText'' = Inr t \<and> truthy t))))"
        if w: "writes_given_columns update"
      proof -
        from w u obtain row where row: "db contractId = Some row"
          and db': "db' = db(contractId \<mapsto> row')"
          and f: "''fileName'' \<notin> fst ` set (updateData_of status i t) \<longrightarrow>
              fileName row' = fileName row"
            "''uploadedAt'' \<notin> fst ` set (updateData_of status i t) \<longrightarrow>
              uploadedAt row' = uploadedAt row"
            "''progress'' \<notin> fst ` set (updateData_of status i t) \<longrightarrow>
              progress row' = progress row"
            "''indemnificationText'' \<notin> fst ` set (updateData_of status i t) \<longrightarrow>
              stored_indemnificationText row' = stored_indemnificationText row"
            "''terminationText'' \<notin> fst ` set (updateData_of status i t) \<longrightarrow>
              stored_terminationText row' = stored_terminationText row"
          unfolding writes_given_columns_def by blast
        from f have g: "fileName row' = fileName row" "uploadedAt row' = uploadedAt row"
          "progress row' = progress row"
          "\<not> truthy i \<longrightarrow> stored_indemnificationText row' = stored_indemnificationText row"
          "\<not> truthy t \<longrightarrow> stored_terminationText row' = stored_terminationText row"
          by (simp_all add: updateData_names)
        show ?thesis
          using row db' g d i t r by auto
      qed
      from ok other frame names required show ?thesis by blast
    qed
  qed
qed

text \<open>
  C9 as stated fails where it says that only clause strings are written. The payload
  \<^verbatim>\<open>{"status": "completed", "indemnificationText": {"set": null}}\<close> holds an object for the
  clause; an object is truthy, so the handler hands it to the update as it is. For the
  store of the schema this is the operation that sets the column to \<^verbatim>\<open>null\<close>: the answer
  is 200 and the stored clause is gone.
\<close>

theorem put_operation_object_erases_clause:
  "updateData_of (JStr ''completed'') (JObj [(''set'', JNull)]) JUndefined =
     [(''status'', JStr ''completed''), (''indemnificationText'', JObj [(''set'', JNull)])] \<and>
   stored_indemnificationText sample_contract = Some ''Old indemnification clause.'' \<and>
   fst (PUT plain_coercions prisma_contract_update sample_table ''c1'' (Inr erasing_payload)) =
     \<lparr>status_code = 200,
      response_json = ContractJson
        (sample_contract\<lparr>stored_status := ''completed'', stored_indemnificationText := None\<rparr>)\<rparr> \<and>
   snd (PUT plain_coercions prisma_contract_update sample_table ''c1'' (Inr erasing_payload)) ''c1'' =
     Some (sample_contract\<lparr>stored_status := ''completed'', stored_indemnificationText := None\<rparr>)"
  by (simp add: PUT_def put_steps_def erasing_payload_def sample_table_def sample_contract_def
      prisma_contract_update_def updateData_of_def accepted_field_def write_field_def
      status_input_def clause_input_def contract_statuses_def Let_def)

theorem put_writes_only_truthy_clauses_witness:
  "\<exists>row'. snd (PUT plain_coercions prisma_contract_update sample_table ''c1''
                 (Inr sample_payload)) ''c1'' = Some row' \<and>
     status_code (fst (PUT plain_coercions prisma_contract_update sample_table ''c1''
                 (Inr sample_payload))) = 200 \<and>
     stored_indemnificationText row' = Some ''Old indemnification clause.'' \<and>
     stored_terminationText row' = Some ''Either party may terminate at will.'' \<and>
     stored_status row' = ''completed'' \<and>
     fileName row' = ''msa.pdf''"
proof -
  let ?r = "PUT plain_coercions prisma_contract_update sample_table ''c1'' (Inr sample_payload)"
  have p: "?r = (fst ?r, snd ?r)" by simp
  have code: "status_code (fst ?r) = 200"
    by (simp add: PUT_def put_steps_def sample_payload_def sample_table_def
        prisma_contract_update_def updateData_of_def accepted_field_def
        status_input_def clause_input_def contract_statuses_def Let_def)
  have row: "sample_table ''c1'' = Some sample_contract" by (simp add: sample_table_def)
  have gs: "get sample_payload ''status'' = Inr (JStr ''completed'')"
    and gi: "get sample_payload ''indemnificationText'' = Inr (JStr [])"
    and gt: "get sample_payload ''terminationText'' =
        Inr (JStr ''Either party may terminate at will.'')"
    by (simp_all add: sample_payload_def)
  note all = put_writes_only_truthy_clauses[OF p]
  note frame = all
    [THEN conjunct2, THEN conjunct2, THEN conjunct2, THEN conjunct2, THEN mp,
     OF prisma_contract_update_writes_given_columns]
  from frame[THEN conjunct2, THEN conjunct2, THEN spec, THEN mp, OF row]
  obtain row' where r: "snd ?r ''c1'' = Some row'"
    and f: "fileName row' = fileName sample_contract"
    and i: "stored_indemnificationText row' \<noteq> stored_indemnificationText sample_contract \<longrightarrow>
             status_code (fst ?r) = 200 \<and>
             (\<exists>data i. Inr sample_payload = (Inr data :: js_error + jsval) \<and>
                get data ''indemnificationText'' = Inr i \<and> truthy i)"
    by blast
  have kept: "stored_indemnificationText row' = stored_indemnificationText sample_contract"
  proof (rule ccontr)
    assume "stored_indemnificationText row' \<noteq> stored_indemnificationText sample_contract"
    with i obtain v where "get sample_payload ''indemnificationText'' = Inr v" "truthy v"
      by blast
    with gi show False by simp
  qed
  from all[THEN conjunct1, THEN mp, OF code]
  obtain status i t written where
    "get sample_payload ''status'' = Inr status"
    "get sample_payload ''indemnificationText'' = Inr i"
    "get sample_payload ''terminationText'' = Inr t"
    and u: "prisma_contract_update sample_table ''c1'' (updateData_of status i t) =
        Inr (written, snd ?r)"
    by blast
  with gs gi gt have "prisma_contract_update sample_table ''c1''
      (updateData_of (JStr ''completed'') (JStr [])
         (JStr ''Either party may terminate at will.'')) = Inr (written, snd ?r)"
    by simp
  moreover have "table ''c1'' = Some (sample_contract
      \<lparr>stored_status := ''completed'',
       stored_terminationText := Some ''Either party may terminate at will.''\<rparr>)"
    if "prisma_contract_update sample_table ''c1''
      (updateData_of (JStr ''completed'') (JStr [])
         (JStr ''Either party may terminate at will.'')) = Inr (written, table)"
    for table
    using that
    by (auto simp: prisma_contract_update_def updateData_of_def accepted_field_def
        write_field_def status_input_def clause_input_def contract_statuses_def Let_def
        sample_table_def split: if_splits)
  ultimately have "snd ?r ''c1'' = Some (sample_contract
      \<lparr>stored_status := ''completed'',
       stored_terminationText := Some ''Either party may terminate at will.''\<rparr>)"
    by blast
  with r have "stored_terminationText row' = Some ''Either party may terminate at will.''"
    "stored_status row' = ''completed''"
    by auto
  with r f code kept show ?thesis by (simp add: sample_contract_def)
qed

section \<open>The two scripts\<close>

lemma updateContractStatus_extract_eq:
  "updateContractStatus_extract env contractId status clauses w =
     (Inr (),
      \<lparr> requests = requests w @
          [\<lparr>url = contract_url env contractId, payload = status_payload status clauses\<rparr>],
        errors = errors w @
          (case axios_put env (length (requests w)) (contract_url env contractId)
                  (status_payload status clauses) of
             Inl e \<Rightarrow> [StatusUpdateFailed] | Inr code \<Rightarrow> []) \<rparr>)"
  by (simp add: updateContractStatus_extract_def try_catch_def then_do_def put_request_def
      result_def console_error_def split: sum.splits)

lemma updateContractStatus_process_eq:
  "updateContractStatus_process env contractId status w =
     (Inr (),
      \<lparr> requests = requests w @
          [\<lparr>url = contract_url env contractId, payload = JObj [(''status'', JStr status)]\<rparr>],
        errors = errors w @
          (case axios_put env (length (requests w)) (contract_url env contractId)
                  (JObj [(''status'', JStr status)]) of
             Inl e \<Rightarrow> [StatusUpdateFailed] | Inr code \<Rightarrow> []) \<rparr>)"
  by (simp add: updateContractStatus_process_def try_catch_def then_do_def put_request_def
      result_def console_error_def split: sum.splits)

lemma extractTextFromOcrJson_logged_eq:
  "extractTextFromOcrJson_logged env j w =
     (Inr (extractTextFromOcrJson (coerce env) j),
      \<lparr> requests = requests w,
        errors = errors w @ (if threw (ocr_flow (coerce env) j) then [OcrJsonError] else []) \<rparr>)"
  by (simp add: extractTextFromOcrJson_logged_def result_def)

lemma then_do_Inr: "a w = (Inr v, w1) \<Longrightarrow> then_do a k w = k v w1"
  by (simp add: then_do_def)

lemma then_do_Inl: "a w = (Inl e, w1) \<Longrightarrow> then_do a k w = (Inl e, w1)"
  by (simp add: then_do_def)

lemma try_catch_Inr: "a w = (Inr v, w1) \<Longrightarrow> try_catch a h w = (Inr v, w1)"
  by (simp add: try_catch_def)

lemma try_catch_Inl: "a w = (Inl e, w1) \<Longrightarrow> try_catch a h w = h e w1"
  by (simp add: try_catch_def)

lemma read_shard_eq:
  "read_shard env f content combinedText w =
     (case JSON_parse env content of
        Inl e \<Rightarrow>
          (Inr combinedText,
           \<lparr>requests = requests w, errors = errors w @ [ShardParseError (file_name f)]\<rparr>)
      | Inr j \<Rightarrow>
          (Inr (combinedText @
                (if extractTextFromOcrJson (coerce env) j \<noteq> []
                 then extractTextFromOcrJson (coerce env) j @ blank_line else [])),
           \<lparr>requests = requests w,
             errors = errors w @
               (if threw (ocr_flow (coerce env) j) then [OcrJsonError] else []) @
               (if extractTextFromOcrJson (coerce env) j \<noteq> [] then []
                else [NoTextInShard (file_name f)])\<rparr>))"
proof (cases "JSON_parse env content")
  case (Inl e)
  then show ?thesis
    by (simp add: read_shard_def try_catch_def then_do_evaluate result_def)
next
  case (Inr j)
  then show ?thesis
    by (simp add: read_shard_def try_catch_def then_do_evaluate result_def
        then_do_Inr[where a="extractTextFromOcrJson_logged env j" and w=w,
          OF extractTextFromOcrJson_logged_eq])
qed

lemma read_shard_quiet:
  "\<exists>c. fst (read_shard env f content combinedText w) = Inr c \<and>
       requests (snd (read_shard env f content combinedText w)) = requests w"
  by (simp add: read_shard_eq split: sum.splits)

lemma shards_loop_quiet:
  "requests (snd (shards_loop env files combinedText w)) = requests w"
proof (induction files arbitrary: combinedText w)
  case Nil
  then show ?case by (simp add: result_def)
next
  case (Cons f files)
  show ?case
  proof (cases "endsWith (file_name f) ''.json''")
    case False
    with Cons show ?thesis by simp
  next
    case True
    show ?thesis
    proof (cases "file_download f")
      case (Inl e)
      with True show ?thesis by (simp add: then_do_evaluate)
    next
      case (Inr content)
      obtain c where c: "fst (read_shard env f content combinedText w) = Inr c"
        and q: "requests (snd (read_shard env f content combinedText w)) = requests w"
        using read_shard_quiet by blast
      then have rs: "read_shard env f content combinedText w =
          (Inr c, snd (read_shard env f content combinedText w))"
        by (metis prod.collapse)
      have "shards_loop env (f # files) combinedText w =
          shards_loop env files c (snd (read_shard env f content combinedText w))"
        using True Inr by (simp add: then_do_evaluate then_do_Inr[where a="read_shard env f content combinedText" and w=w, OF rs])
      then show ?thesis
        using Cons[of c "snd (read_shard env f content combinedText w)"] q by simp
    qed
  qed
qed


lemma completes_or_fails_then:
  assumes quiet: "\<And>w. payloads (snd (a w)) = payloads w"
    and rest: "\<And>w v. fst (a w) = Inr v \<Longrightarrow> completes_or_fails (k v)"
  shows "completes_or_fails (then_do a k)"
  unfolding completes_or_fails_def
proof
  fix w
  obtain r w1 where a: "a w = (r, w1)" by (cases "a w")
  with quiet[of w] have q: "payloads w1 = payloads w" by simp
  show "case then_do a k w of
          (Inl e, w') \<Rightarrow> payloads w' = payloads w
        | (Inr u, w') \<Rightarrow>
            (\<exists>c. truthy (indemnificationText c) \<and> truthy (terminationText c) \<and>
                 payloads w' = payloads w @ [completed_with c])"
  proof (cases r)
    case (Inl e)
    with a q show ?thesis by (simp add: then_do_def)
  next
    case (Inr v)
    with a have "completes_or_fails (k v)" using rest[of w v] by simp
    then have "case k v w1 of
          (Inl e, w') \<Rightarrow> payloads w' = payloads w1
        | (Inr u, w') \<Rightarrow>
            (\<exists>c. truthy (indemnificationText c) \<and> truthy (terminationText c) \<and>
                 payloads w' = payloads w1 @ [completed_with c])"
      by (simp add: completes_or_fails_def)
    with a Inr show ?thesis unfolding q[symmetric] by (simp add: then_do_def)
  qed
qed

lemma evaluate_quiet: "payloads (snd (evaluate x w)) = payloads w"
  by (simp add: evaluate_def)

lemma shards_loop_payloads: "payloads (snd (shards_loop env files t w)) = payloads w"
  by (simp add: payloads_def shards_loop_quiet)

lemma extractClausesWithAI_payloads:
  "payloads (snd (extractClausesWithAI env t w)) = payloads w"
  using extractClausesWithAI_result[of env t w] by (auto simp: payloads_def)

lemma extractClausesWithAI_truthy:
  "fst (extractClausesWithAI env t w) = Inr c \<Longrightarrow>
   truthy (indemnificationText c) \<and> truthy (terminationText c)"
  using extractClausesWithAI_result[of env t w] by auto

lemma report_completion:
  assumes "truthy (indemnificationText c)" "truthy (terminationText c)"
  shows "completes_or_fails (updateContractStatus_extract env contractId ''completed'' (Some c))"
  unfolding completes_or_fails_def
  using assms
  by (auto simp: updateContractStatus_extract_eq payloads_def status_payload_def completed_with_def)

lemma after_extracting:
  "completes_or_fails
     (then_do (evaluate (parseGsUri gsUri)) (\<lambda>(bucketName, sourcePath).
      then_do (evaluate (getFiles env bucketName sourcePath)) (\<lambda>files.
      then_do (shards_loop env files []) (\<lambda>combinedText.
      then_do (evaluate (prepare_directory env)) (\<lambda>_.
      then_do (evaluate (writeFileSync env (data_path ''extracted_knowledge'' contractId)
                 (JStr combinedText))) (\<lambda>_.
      then_do (extractClausesWithAI env combinedText) (\<lambda>clauses.
      then_do (evaluate (writeFileSync env (data_path ''indemnification_clause'' contractId)
                 (indemnificationText clauses))) (\<lambda>_.
      then_do (evaluate (writeFileSync env (data_path ''termination_clause'' contractId)
                 (terminationText clauses))) (\<lambda>_.
        updateContractStatus_extract env contractId ''completed'' (Some clauses))))))))))"
  by (intro completes_or_fails_then evaluate_quiet shards_loop_payloads
      extractClausesWithAI_payloads)
     (auto simp: split_def dest!: extractClausesWithAI_truthy
       intro!: completes_or_fails_then evaluate_quiet shards_loop_payloads
         extractClausesWithAI_payloads report_completion)


lemma knowledge_steps_trace:
  "case knowledge_steps env gsUri contractId w of
     (Inl e, w') \<Rightarrow> payloads w' = payloads w @ [status_only ''extracting'']
   | (Inr u, w') \<Rightarrow>
       (\<exists>c. truthy (indemnificationText c) \<and> truthy (terminationText c) \<and>
            payloads w' = payloads w @ [status_only ''extracting'', completed_with c])"
proof -
  let ?w1 = "snd (updateContractStatus_extract env contractId ''extracting'' None w)"
  have u: "updateContractStatus_extract env contractId ''extracting'' None w = (Inr (), ?w1)"
    by (simp add: updateContractStatus_extract_eq)
  have p: "payloads ?w1 = payloads w @ [status_only ''extracting'']"
    by (simp add: updateContractStatus_extract_eq payloads_def status_payload_def status_only_def)
  note rest = after_extracting[where gsUri=gsUri and env=env and contractId=contractId,
      unfolded completes_or_fails_def, THEN spec[where x="?w1"]]
  show ?thesis
    unfolding knowledge_steps_def
      then_do_Inr[where a="updateContractStatus_extract env contractId ''extracting'' None"
        and w=w, OF u]
    using rest unfolding p by (auto split: prod.splits sum.splits)
qed

lemma then_do_update_extract:
  "then_do (updateContractStatus_extract env contractId status clauses) k w =
     k () (snd (updateContractStatus_extract env contractId status clauses w))"
  by (simp add: then_do_def updateContractStatus_extract_eq)

lemma then_do_update_process:
  "then_do (updateContractStatus_process env contractId status) k w =
     k () (snd (updateContractStatus_process env contractId status w))"
  by (simp add: then_do_def updateContractStatus_process_eq)

lemma payloads_update_extract:
  "payloads (snd (updateContractStatus_extract env contractId status None w)) =
     payloads w @ [status_only status]"
  by (simp add: updateContractStatus_extract_eq payloads_def status_payload_def status_only_def)

lemma payloads_update_process:
  "payloads (snd (updateContractStatus_process env contractId status w)) =
     payloads w @ [status_only status]"
  by (simp add: updateContractStatus_process_eq payloads_def status_only_def)

lemma payloads_errors [simp]: "payloads (w\<lparr>errors := es\<rparr>) = payloads w"
  by (simp add: payloads_def)

lemma extractKnowledge_trace:
  "(fst (extractKnowledge env gsUri contractId w) = 0 \<and>
    (\<exists>c. truthy (indemnificationText c) \<and> truthy (terminationText c) \<and>
       payloads (snd (extractKnowledge env gsUri contractId w)) =
         payloads w @ [status_only ''extracting'', completed_with c])) \<or>
   (fst (extractKnowledge env gsUri contractId w) = 1 \<and>
    payloads (snd (extractKnowledge env gsUri contractId w)) =
      payloads w @ [status_only ''extracting'', status_only ''failed''])"
proof (cases "knowledge_steps env gsUri contractId w")
  case (Pair r w1)
  show ?thesis
  proof (cases r)
    case (Inl e)
    with Pair knowledge_steps_trace[where env=env and gsUri=gsUri and contractId=contractId and w=w]
    have p: "payloads w1 = payloads w @ [status_only ''extracting'']" by simp
    have a: "then_do (knowledge_steps env gsUri contractId) (\<lambda>_. result 0) w = (Inl e, w1)"
      using Pair Inl by (simp add: then_do_def)
    have "extractKnowledge env gsUri contractId w =
        (1, snd (updateContractStatus_extract env contractId ''failed'' None
                  (w1\<lparr>errors := errors w1 @ [KnowledgeExtractionError]\<rparr>)))"
      by (simp add: extractKnowledge_def try_catch_def a then_do_update_extract result_def)
    then show ?thesis using p
      by (simp add: payloads_update_extract)
  next
    case (Inr u)
    with Pair knowledge_steps_trace[where env=env and gsUri=gsUri and contractId=contractId and w=w]
    obtain c where c: "truthy (indemnificationText c)" "truthy (terminationText c)"
      "payloads w1 = payloads w @ [status_only ''extracting'', completed_with c]"
      by auto
    have a: "then_do (knowledge_steps env gsUri contractId) (\<lambda>_. result 0) w = (Inr 0, w1)"
      using Pair Inr by (simp add: then_do_def result_def)
    have "extractKnowledge env gsUri contractId w = (0, w1)"
      by (simp add: extractKnowledge_def try_catch_def a)
    with c show ?thesis by auto
  qed
qed


lemma runExtractKnowledge_trace:
  "(fst (runExtractKnowledge env contractId gcsUri w) = Inr () \<and>
    (\<exists>c. truthy (indemnificationText c) \<and> truthy (terminationText c) \<and>
       payloads (snd (runExtractKnowledge env contractId gcsUri w)) =
         payloads w @ [status_only ''extracting'', completed_with c])) \<or>
   ((\<exists>e. fst (runExtractKnowledge env contractId gcsUri w) = Inl e) \<and>
    payloads (snd (runExtractKnowledge env contractId gcsUri w)) =
      payloads w @ [status_only ''extracting'', status_only ''failed''])"
proof (cases "extractKnowledge env gcsUri contractId w")
  case (Pair code w1)
  from extractKnowledge_trace[of env gcsUri contractId w] Pair
  consider (ok) c where "code = 0" "truthy (indemnificationText c)" "truthy (terminationText c)"
      "payloads w1 = payloads w @ [status_only ''extracting'', completed_with c]"
    | (failed) "code = 1"
      "payloads w1 = payloads w @ [status_only ''extracting'', status_only ''failed'']"
    by auto
  then show ?thesis
  proof cases
    case ok
    then show ?thesis using Pair by (auto simp: runExtractKnowledge_def)
  next
    case failed
    then show ?thesis using Pair by (simp add: runExtractKnowledge_def throw_def)
  qed
qed

lemma extractTextFromPDF_eq:
  "extractTextFromPDF env gcsUri contractId w =
     (case annotate_files env gcsUri (output_uri env contractId) of
        Inl e \<Rightarrow> (Inl e, w)
      | Inr u \<Rightarrow>
          (Inr (''Text extraction complete. Results stored in: '' @ output_uri env contractId), w))"
  by (simp add: extractTextFromPDF_def then_do_evaluate result_def split: sum.splits)

lemma process_steps_eq:
  "process_steps env contractId gcsUri w =
     (case annotate_files env gcsUri (output_uri env contractId) of
        Inl e \<Rightarrow> (Inl e, snd (updateContractStatus_process env contractId ''processing'' w))
      | Inr u \<Rightarrow>
          runExtractKnowledge env contractId (output_uri env contractId)
            (snd (updateContractStatus_process env contractId ''processing'' w)))"
  unfolding process_steps_def then_do_update_process
  by (simp add: then_do_def extractTextFromPDF_eq split: sum.splits)

lemma process_steps_trace:
  "((\<exists>e. annotate_files env gcsUri (output_uri env contractId) = Inl e) \<and>
    (\<exists>e. fst (process_steps env contractId gcsUri w) = Inl e) \<and>
    payloads (snd (process_steps env contractId gcsUri w)) =
      payloads w @ [status_only ''processing'']) \<or>
   ((\<exists>u. annotate_files env gcsUri (output_uri env contractId) = Inr u) \<and>
    (\<exists>e. fst (process_steps env contractId gcsUri w) = Inl e) \<and>
    payloads (snd (process_steps env contractId gcsUri w)) =
      payloads w @ [status_only ''processing'', status_only ''extracting'',
                    status_only ''failed'']) \<or>
   ((\<exists>u. annotate_files env gcsUri (output_uri env contractId) = Inr u) \<and>
    fst (process_steps env contractId gcsUri w) = Inr () \<and>
    (\<exists>c. truthy (indemnificationText c) \<and> truthy (terminationText c) \<and>
       payloads (snd (process_steps env contractId gcsUri w)) =
         payloads w @ [status_only ''processing'', status_only ''extracting'',
                       completed_with c]))"
proof -
  let ?w1 = "snd (updateContractStatus_process env contractId ''processing'' w)"
  have p1: "payloads ?w1 = payloads w @ [status_only ''processing'']"
    by (rule payloads_update_process)
  show ?thesis
  proof (cases "annotate_files env gcsUri (output_uri env contractId)")
    case (Inl e)
    then have "process_steps env contractId gcsUri w = (Inl e, ?w1)"
      by (simp add: process_steps_eq)
    with Inl p1 show ?thesis by simp
  next
    case (Inr u)
    then have "process_steps env contractId gcsUri w =
        runExtractKnowledge env contractId (output_uri env contractId) ?w1"
      by (simp add: process_steps_eq)
    with Inr p1 runExtractKnowledge_trace[of env contractId "output_uri env contractId" ?w1]
    show ?thesis by auto
  qed
qed

lemma main_trace:
  assumes "contractId \<noteq> []" "gcsUri \<noteq> []"
  shows
  "((\<exists>e. annotate_files env gcsUri (output_uri env contractId) = Inl e) \<and>
    payloads (snd (main env (contractId # gcsUri # args) w)) =
      payloads w @ [status_only ''processing'', status_only ''failed'']) \<or>
   ((\<exists>u. annotate_files env gcsUri (output_uri env contractId) = Inr u) \<and>
    payloads (snd (main env (contractId # gcsUri # args) w)) =
      payloads w @ [status_only ''processing'', status_only ''extracting'',
                    status_only ''failed'', status_only ''failed'']) \<or>
   ((\<exists>u. annotate_files env gcsUri (output_uri env contractId) = Inr u) \<and>
    (\<exists>c. truthy (indemnificationText c) \<and> truthy (terminationText c) \<and>
       payloads (snd (main env (contractId # gcsUri # args) w)) =
         payloads w @ [status_only ''processing'', status_only ''extracting'',
                       completed_with c]))"
proof (cases "process_steps env contractId gcsUri w")
  case (Pair r w1)
  have m: "main env (contractId # gcsUri # args) w =
      try_catch (process_steps env contractId gcsUri)
        (\<lambda>err. then_do (console_error ProcessingError) (\<lambda>_.
           updateContractStatus_process env contractId ''failed'')) w"
    using assms by (simp add: main_def)
  show ?thesis
  proof (cases r)
    case (Inl e)
    then have "main env (contractId # gcsUri # args) w =
        updateContractStatus_process env contractId ''failed''
          (w1\<lparr>errors := errors w1 @ [ProcessingError]\<rparr>)"
      using Pair by (simp add: m try_catch_def)
    then have "payloads (snd (main env (contractId # gcsUri # args) w)) =
        payloads w1 @ [status_only ''failed'']"
      by (simp add: payloads_update_process)
    with Inl Pair process_steps_trace[of env gcsUri contractId w] show ?thesis by auto
  next
    case (Inr u)
    then have "main env (contractId # gcsUri # args) w = (Inr u, w1)"
      using Pair by (simp add: m try_catch_def)
    with Inr Pair process_steps_trace[of env gcsUri contractId w] show ?thesis by auto
  qed
qed

lemma main_usage:
  "contractId = [] \<or> gcsUri = [] \<Longrightarrow>
   payloads (snd (main env (contractId # gcsUri # args) w)) = payloads w"
  "payloads (snd (main env [] w)) = payloads w"
  "payloads (snd (main env [contractId] w)) = payloads w"
  by (auto simp: main_def console_error_def)


lemma payloads_start: "payloads start = []"
  by (simp add: payloads_def start_def)

text \<open>
  C2. A run of \<open>main\<close> on an id and a source location issues one of three sequences of
  update payloads: \<open>processing, failed\<close>; \<open>processing, extracting, failed, failed\<close>
  (the extraction script reports its failure, and so does \<open>main\<close> on its exit code); or
  \<open>processing, extracting, completed\<close>, where the last payload holds both clauses, each
  truthy. When the OCR call fails it is the first sequence, whose payloads hold a status
  and nothing else. A payload with the status \<open>completed\<close> is the last one of its run
  and holds both clauses; in a run whose last payload is \<open>failed\<close>, every payload holds
  a status only.
\<close>

theorem pipeline_status_updates:
  assumes "contractId \<noteq> []" "gcsUri \<noteq> []"
  shows
  "((\<exists>e. annotate_files env gcsUri (output_uri env contractId) = Inl e) \<longrightarrow>
      payloads (snd (main env (contractId # gcsUri # args) start)) =
        [status_only ''processing'', status_only ''failed'']) \<and>
   (payloads (snd (main env (contractId # gcsUri # args) start)) =
      [status_only ''processing'', status_only ''failed''] \<or>
    payloads (snd (main env (contractId # gcsUri # args) start)) =
      [status_only ''processing'', status_only ''extracting'',
       status_only ''failed'', status_only ''failed''] \<or>
    (\<exists>c. truthy (indemnificationText c) \<and> truthy (terminationText c) \<and>
       payloads (snd (main env (contractId # gcsUri # args) start)) =
         [status_only ''processing'', status_only ''extracting'', completed_with c])) \<and>
   (\<forall>p \<in> set (payloads (snd (main env (contractId # gcsUri # args) start))).
      get p ''status'' = Inr (JStr ''completed'') \<longrightarrow>
      p = last (payloads (snd (main env (contractId # gcsUri # args) start))) \<and>
      (\<exists>c. truthy (indemnificationText c) \<and> truthy (terminationText c) \<and>
           p = completed_with c)) \<and>
   (last (payloads (snd (main env (contractId # gcsUri # args) start))) = status_only ''failed'' \<longrightarrow>
      (\<forall>p \<in> set (payloads (snd (main env (contractId # gcsUri # args) start))).
         \<exists>s. p = status_only s))"
proof -
  let ?ps = "payloads (snd (main env (contractId # gcsUri # args) start))"
  from main_trace[OF assms, of env args start]
  consider (ocr) e where "annotate_files env gcsUri (output_uri env contractId) = Inl e"
      "?ps = [status_only ''processing'', status_only ''failed'']"
    | (failed) u where "annotate_files env gcsUri (output_uri env contractId) = Inr u"
      "?ps = [status_only ''processing'', status_only ''extracting'',
              status_only ''failed'', status_only ''failed'']"
    | (completed) u c where "annotate_files env gcsUri (output_uri env contractId) = Inr u"
      "truthy (indemnificationText c)" "truthy (terminationText c)"
      "?ps = [status_only ''processing'', status_only ''extracting'', completed_with c]"
    unfolding payloads_start by auto
  then show ?thesis
  proof cases
    case ocr
    then show ?thesis by (simp add: status_only_def)
  next
    case failed
    then show ?thesis by (simp add: status_only_def)
  next
    case completed
    have "completed_with c \<noteq> status_only ''failed''"
      by (simp add: completed_with_def status_only_def)
    moreover have "get (completed_with c) ''status'' = Inr (JStr ''completed'')"
      by (simp add: completed_with_def)
    ultimately show ?thesis
      using completed by (auto simp: status_only_def)
  qed
qed

theorem pipeline_status_updates_witness:
  "payloads (snd (main failing_environment [''c1'', ''gs://bucket/input/a.pdf''] start)) =
     [status_only ''processing'', status_only ''failed''] \<and>
   payloads (snd (main working_environment [''c1'', ''gs://bucket/input/a.pdf''] start)) =
     [status_only ''processing'', status_only ''extracting'',
      completed_with \<lparr> indemnificationText = JStr no_indemnification,
                       terminationText = JStr no_termination \<rparr>]"
proof -
  have a: "''c1'' \<noteq> []" and b: "''gs://bucket/input/a.pdf'' \<noteq> []" by simp_all
  have f: "\<exists>e. annotate_files failing_environment ''gs://bucket/input/a.pdf''
      (output_uri failing_environment ''c1'') = Inl e"
    by (simp add: failing_environment_def)
  have "payloads (snd (main failing_environment [''c1'', ''gs://bucket/input/a.pdf''] start)) =
     [status_only ''processing'', status_only ''failed'']"
    using pipeline_status_updates[OF a b, of failing_environment "[]"] f by blast
  moreover have "payloads (snd (main working_environment [''c1'', ''gs://bucket/input/a.pdf''] start)) =
     [status_only ''processing'', status_only ''extracting'',
      completed_with \<lparr> indemnificationText = JStr no_indemnification,
                       terminationText = JStr no_termination \<rparr>]"
    by code_simp
  ultimately show ?thesis by simp
qed




lemma shards_loop_skip:
  "\<not> endsWith (file_name f) ''.json'' \<Longrightarrow>
   shards_loop env (f # files) combinedText w = shards_loop env files combinedText w"
  by simp


lemma fst_update_extract [simp]:
  "fst (updateContractStatus_extract env contractId status clauses w) = Inr ()"
  by (simp add: updateContractStatus_extract_eq)

lemma fst_update_process [simp]:
  "fst (updateContractStatus_process env contractId status w) = Inr ()"
  by (simp add: updateContractStatus_process_eq)














lemma alike_result: "alike (result v) (result v)"
  by (simp add: alike_def result_def)

lemma alike_throw: "alike (throw e) (throw e)"
  by (simp add: alike_def throw_def)

lemma alike_evaluate: "x = y \<Longrightarrow> alike (evaluate x) (evaluate y)"
  by (simp add: alike_def evaluate_def)

lemma alike_console_error: "alike (console_error ev) (console_error ev)"
  by (simp add: alike_def console_error_def same_but_lost_updates_def)

lemma alike_then_do:
  assumes "alike a b" and "\<And>v. alike (k v) (k' v)"
  shows "alike (then_do a k) (then_do b k')"
  unfolding alike_def
proof (intro allI impI)
  fix w w'
  assume s: "same_but_lost_updates w w'"
  obtain r w1 where a: "a w = (r, w1)" by (cases "a w")
  obtain r' w1' where b: "b w' = (r', w1')" by (cases "b w'")
  from assms(1) s have "fst (a w) = fst (b w') \<and>
      same_but_lost_updates (snd (a w)) (snd (b w'))"
    by (simp add: alike_def)
  with a b have r: "r' = r" and s1: "same_but_lost_updates w1 w1'"
    by simp_all
  show "fst (then_do a k w) = fst (then_do b k' w') \<and>
        same_but_lost_updates (snd (then_do a k w)) (snd (then_do b k' w'))"
  proof (cases r)
    case (Inl e)
    with a b r s1 show ?thesis by (simp add: then_do_def)
  next
    case (Inr v)
    with a b r s1 assms(2)[of v] show ?thesis by (simp add: then_do_def alike_def)
  qed
qed

lemma alike_try_catch:
  assumes "alike a b" and "\<And>e. alike (h e) (h' e)"
  shows "alike (try_catch a h) (try_catch b h')"
  unfolding alike_def
proof (intro allI impI)
  fix w w'
  assume s: "same_but_lost_updates w w'"
  obtain r w1 where a: "a w = (r, w1)" by (cases "a w")
  obtain r' w1' where b: "b w' = (r', w1')" by (cases "b w'")
  from assms(1) s have "fst (a w) = fst (b w') \<and>
      same_but_lost_updates (snd (a w)) (snd (b w'))"
    by (simp add: alike_def)
  with a b have r: "r' = r" and s1: "same_but_lost_updates w1 w1'"
    by simp_all
  show "fst (try_catch a h w) = fst (try_catch b h' w') \<and>
        same_but_lost_updates (snd (try_catch a h w)) (snd (try_catch b h' w'))"
  proof (cases r)
    case (Inl e)
    with a b r s1 assms(2)[of e] show ?thesis by (simp add: try_catch_def alike_def)
  next
    case (Inr v)
    with a b r s1 show ?thesis by (simp add: try_catch_def)
  qed
qed

lemma alike_if:
  "(c \<Longrightarrow> alike a b) \<Longrightarrow> (\<not> c \<Longrightarrow> alike a' b') \<Longrightarrow>
   alike (if c then a else a') (if c then b else b')"
  by simp

lemma alike_case_prod:
  "(\<And>x y. alike (f x y) (g x y)) \<Longrightarrow> alike (case_prod f p) (case_prod g p)"
  by (cases p) simp

lemma alike_update_extract:
  "alike (updateContractStatus_extract env contractId status clauses)
     (updateContractStatus_extract (env\<lparr>axios_put := put'\<rparr>) contractId status clauses)"
  by (auto simp: alike_def updateContractStatus_extract_eq same_but_lost_updates_def
      contract_url_def split: sum.splits)

lemma alike_update_process:
  "alike (updateContractStatus_process env contractId status)
     (updateContractStatus_process (env\<lparr>axios_put := put'\<rparr>) contractId status)"
  by (auto simp: alike_def updateContractStatus_process_eq same_but_lost_updates_def
      contract_url_def split: sum.splits)

lemmas alike_rules = alike_result alike_throw alike_evaluate alike_console_error
  alike_then_do alike_try_catch alike_if alike_case_prod alike_update_extract
  alike_update_process

lemma parse_response_put [simp]:
  "parse_response (env\<lparr>axios_put := put'\<rparr>) content = parse_response env content"
  by (simp add: parse_response_def split: jsval.splits option.splits)

lemma alike_extractClausesWithAI:
  "alike (extractClausesWithAI env t) (extractClausesWithAI (env\<lparr>axios_put := put'\<rparr>) t)"
  unfolding extractClausesWithAI_def read_clauses_def keyword_fallback_def
  by (intro alike_rules) simp_all

lemma alike_read_shard:
  "alike (read_shard env f content t) (read_shard (env\<lparr>axios_put := put'\<rparr>) f content t)"
  unfolding read_shard_def extractTextFromOcrJson_logged_def
  by (simp, intro alike_rules) simp_all

lemma alike_shards_loop:
  "alike (shards_loop env files t) (shards_loop (env\<lparr>axios_put := put'\<rparr>) files t)"
proof (induction files arbitrary: t)
  case Nil
  show ?case by (simp add: alike_result)
next
  case (Cons f files)
  show ?case
    by (simp, intro conjI impI alike_rules alike_read_shard Cons) simp_all
qed

lemma alike_knowledge_steps:
  "alike (knowledge_steps env gsUri contractId)
     (knowledge_steps (env\<lparr>axios_put := put'\<rparr>) gsUri contractId)"
  unfolding knowledge_steps_def
  by (intro alike_rules alike_shards_loop alike_extractClausesWithAI) simp_all


lemma extractKnowledge_alike:
  assumes "same_but_lost_updates w w'"
  shows "fst (extractKnowledge env gsUri contractId w) =
           fst (extractKnowledge (env\<lparr>axios_put := put'\<rparr>) gsUri contractId w') \<and>
         same_but_lost_updates (snd (extractKnowledge env gsUri contractId w))
           (snd (extractKnowledge (env\<lparr>axios_put := put'\<rparr>) gsUri contractId w'))"
proof -
  let ?a = "try_catch
             (then_do (knowledge_steps env gsUri contractId) (\<lambda>_. result (0::nat)))
             (\<lambda>error.
                then_do (console_error KnowledgeExtractionError) (\<lambda>_.
                then_do (updateContractStatus_extract env contractId ''failed'' None) (\<lambda>_.
                  result 1)))"
  let ?b = "try_catch
             (then_do (knowledge_steps (env\<lparr>axios_put := put'\<rparr>) gsUri contractId)
                (\<lambda>_. result (0::nat)))
             (\<lambda>error.
                then_do (console_error KnowledgeExtractionError) (\<lambda>_.
                then_do (updateContractStatus_extract (env\<lparr>axios_put := put'\<rparr>) contractId
                           ''failed'' None) (\<lambda>_.
                  result 1)))"
  have "alike ?a ?b"
    by (intro alike_rules alike_knowledge_steps)
  with assms have r: "fst (?a w) = fst (?b w')"
    and s: "same_but_lost_updates (snd (?a w)) (snd (?b w'))"
    by (simp_all add: alike_def)
  obtain ra wa where a: "?a w = (ra, wa)" by (cases "?a w")
  obtain rb wb where b: "?b w' = (rb, wb)" by (cases "?b w'")
  from r s a b have "rb = ra" "same_but_lost_updates wa wb" by simp_all
  then show ?thesis
    unfolding extractKnowledge_def a b by (cases ra) simp_all
qed

lemma alike_runExtractKnowledge:
  "alike (runExtractKnowledge env contractId gcsUri)
     (runExtractKnowledge (env\<lparr>axios_put := put'\<rparr>) contractId gcsUri)"
  unfolding alike_def
proof (intro allI impI)
  fix w w'
  assume s: "same_but_lost_updates w w'"
  obtain code w1 where a: "extractKnowledge env gcsUri contractId w = (code, w1)"
    by (cases "extractKnowledge env gcsUri contractId w")
  obtain code' w1' where b:
    "extractKnowledge (env\<lparr>axios_put := put'\<rparr>) gcsUri contractId w' = (code', w1')"
    by (cases "extractKnowledge (env\<lparr>axios_put := put'\<rparr>) gcsUri contractId w'")
  from extractKnowledge_alike[OF s, of env gcsUri contractId put'] a b
  have c: "code' = code" and s1: "same_but_lost_updates w1 w1'" by simp_all
  show "fst (runExtractKnowledge env contractId gcsUri w) =
          fst (runExtractKnowledge (env\<lparr>axios_put := put'\<rparr>) contractId gcsUri w') \<and>
        same_but_lost_updates (snd (runExtractKnowledge env contractId gcsUri w))
          (snd (runExtractKnowledge (env\<lparr>axios_put := put'\<rparr>) contractId gcsUri w'))"
    using a b c s1
    by (simp add: runExtractKnowledge_def throw_def same_but_lost_updates_def)
qed

lemma output_uri_put [simp]: "output_uri (env\<lparr>axios_put := put'\<rparr>) contractId = output_uri env contractId"
  by (simp add: output_uri_def)

lemma alike_main:
  "alike (main env argv) (main (env\<lparr>axios_put := put'\<rparr>) argv)"
proof (cases argv)
  case Nil
  then show ?thesis by (simp add: main_def alike_console_error)
next
  case (Cons contractId rest)
  show ?thesis
  proof (cases rest)
    case Nil
    with Cons show ?thesis by (simp add: main_def alike_console_error)
  next
    case c2: (Cons gcsUri args)
    have "alike (process_steps env contractId gcsUri)
        (process_steps (env\<lparr>axios_put := put'\<rparr>) contractId gcsUri)"
      unfolding process_steps_def extractTextFromPDF_def
      by (simp, intro alike_rules alike_runExtractKnowledge) simp_all
    then show ?thesis
      unfolding Cons c2 main_def
      by (simp, intro conjI impI alike_rules) simp_all
  qed
qed

lemma same_but_lost_updates_refl: "same_but_lost_updates w w"
  by (simp add: same_but_lost_updates_def)

text \<open>
  C8. Both \<open>updateContractStatus\<close> functions return normally in every world and for
  every answer of the record store. Each issues exactly one request (none is repeated),
  and when the request is rejected the one line \<open>Failed to update contract status\<close> is
  logged. And a run of \<open>main\<close> does not depend on those answers: replace the
  environment's \<open>axios_put\<close> by any other and the run returns the same, issues the same
  requests in the same order, and logs the same lines but for the lines on rejected
  updates.
\<close>

theorem status_updates_are_fire_and_forget:
  "fst (updateContractStatus_process env contractId status w) = Inr () \<and>
   fst (updateContractStatus_extract env contractId status clauses w) = Inr () \<and>
   requests (snd (updateContractStatus_process env contractId status w)) =
     requests w @ [\<lparr>url = contract_url env contractId, payload = status_only status\<rparr>] \<and>
   requests (snd (updateContractStatus_extract env contractId status clauses w)) =
     requests w @
       [\<lparr>url = contract_url env contractId, payload = status_payload status clauses\<rparr>] \<and>
   ((\<exists>e. axios_put env (length (requests w)) (contract_url env contractId)
           (status_only status) = Inl e) \<longrightarrow>
      errors (snd (updateContractStatus_process env contractId status w)) =
        errors w @ [StatusUpdateFailed]) \<and>
   ((\<exists>e. axios_put env (length (requests w)) (contract_url env contractId)
           (status_payload status clauses) = Inl e) \<longrightarrow>
      errors (snd (updateContractStatus_extract env contractId status clauses w)) =
        errors w @ [StatusUpdateFailed]) \<and>
   fst (main (env\<lparr>axios_put := put'\<rparr>) argv w) = fst (main env argv w) \<and>
   requests (snd (main (env\<lparr>axios_put := put'\<rparr>) argv w)) =
     requests (snd (main env argv w)) \<and>
   filter (\<lambda>ev. ev \<noteq> StatusUpdateFailed) (errors (snd (main (env\<lparr>axios_put := put'\<rparr>) argv w))) =
     filter (\<lambda>ev. ev \<noteq> StatusUpdateFailed) (errors (snd (main env argv w)))"
proof -
  have run: "fst (main env argv w) = fst (main (env\<lparr>axios_put := put'\<rparr>) argv w) \<and>
      same_but_lost_updates (snd (main env argv w)) (snd (main (env\<lparr>axios_put := put'\<rparr>) argv w))"
    using alike_main[of env argv put'] same_but_lost_updates_refl[of w]
    unfolding alike_def by blast
  have logs: "errors (snd (updateContractStatus_process env contractId status w)) =
        errors w @ [StatusUpdateFailed]"
    if "axios_put env (length (requests w)) (contract_url env contractId)
           (status_only status) = Inl e" for e
    using that by (simp add: updateContractStatus_process_eq status_only_def)
  have logs': "errors (snd (updateContractStatus_extract env contractId status clauses w)) =
        errors w @ [StatusUpdateFailed]"
    if "axios_put env (length (requests w)) (contract_url env contractId)
           (status_payload status clauses) = Inl e" for e
    using that by (simp add: updateContractStatus_extract_eq)
  have sent: "requests (snd (updateContractStatus_process env contractId status w)) =
     requests w @ [\<lparr>url = contract_url env contractId, payload = status_only status\<rparr>]"
    "requests (snd (updateContractStatus_extract env contractId status clauses w)) =
     requests w @
       [\<lparr>url = contract_url env contractId, payload = status_payload status clauses\<rparr>]"
    by (simp_all add: updateContractStatus_process_eq updateContractStatus_extract_eq
        status_only_def)
  from run have "fst (main (env\<lparr>axios_put := put'\<rparr>) argv w) = fst (main env argv w)"
    "requests (snd (main (env\<lparr>axios_put := put'\<rparr>) argv w)) = requests (snd (main env argv w))"
    "filter (\<lambda>ev. ev \<noteq> StatusUpdateFailed) (errors (snd (main (env\<lparr>axios_put := put'\<rparr>) argv w))) =
     filter (\<lambda>ev. ev \<noteq> StatusUpdateFailed) (errors (snd (main env argv w)))"
    by (simp_all add: same_but_lost_updates_def)
  moreover have "fst (updateContractStatus_process env contractId status w) = Inr ()"
    "fst (updateContractStatus_extract env contractId status clauses w) = Inr ()"
    by simp_all
  ultimately show ?thesis using logs logs' sent by blast
qed

theorem status_updates_are_fire_and_forget_witness:
  "errors (snd (updateContractStatus_extract failing_environment ''c1'' ''extracting'' None start)) =
     [StatusUpdateFailed] \<and>
   fst (updateContractStatus_extract failing_environment ''c1'' ''extracting'' None start) = Inr () \<and>
   requests (snd (main (working_environment\<lparr>axios_put := (\<lambda>n u p. Inl Rejected)\<rparr>)
                    [''c1'', ''gs://bucket/input/a.pdf''] start)) =
     requests (snd (main working_environment [''c1'', ''gs://bucket/input/a.pdf''] start))"
proof -
  have "\<exists>e. axios_put failing_environment (length (requests start))
      (contract_url failing_environment ''c1'') (status_payload ''extracting'' None) = Inl e"
    by (simp add: failing_environment_def)
  moreover have "errors start = []" by (simp add: start_def)
  ultimately show ?thesis
    using status_updates_are_fire_and_forget
      [where env=failing_environment and contractId="''c1''" and status="''extracting''"
         and clauses=None and w=start]
      status_updates_are_fire_and_forget
      [where env=working_environment and put'="\<lambda>n u p. Inl Rejected"
         and argv="[''c1'', ''gs://bucket/input/a.pdf'']" and w=start]
    by simp
qed


end
